(* ===== verification/Prelude.thy ===== *)
theory Prelude imports Complex_Main "HOL-Library.Multiset" "HOL-Library.Word" begin

text \<open>
  Shared vocabulary of the development: the exceptions the code raises, the result of a
  Python call, the effect type of code that changes a state and may raise, and generic
  lemmas on lists, multisets and integers that the component theories use.
\<close>

section \<open>Exceptions and results\<close>

text \<open>
  The Python exceptions that the sources raise or let escape. \<open>Stopped_exc\<close> is
  \<^verbatim>\<open>lwip_py.utility.scheduler.Stopped\<close>; \<open>Stack_exc\<close> holds an
  object of the class hierarchy of \<^verbatim>\<open>lwip_py/stack/exceptions.py\<close>;
  \<open>ArgumentError\<close> is \<^verbatim>\<open>ctypes.ArgumentError\<close>; \<open>AppError\<close> stands for
  an exception raised by user code (an action, a callback).
\<close>

datatype stack_exception = StackException int | LwipError int | AllocationError

datatype py_exc =
    TypeError | ValueError | KeyError | IndexError | RuntimeError | AttributeError | OverflowError | FileNotFoundError
  | InvalidStateError | ArgumentError | Stopped_exc | Stack_exc stack_exception | AppError nat

text \<open>A call returns a value (\<open>Inr\<close>) or raises (\<open>Inl\<close>).\<close>

type_synonym 'a res = "py_exc + 'a"

text \<open>
  A call that reads and writes a state \<open>'s\<close>: the state is threaded through also when
  the call raises, because Python does not roll back.
\<close>

type_synonym ('s, 'a) py = "'s \<Rightarrow> 'a res \<times> 's"

definition py_return :: "'a \<Rightarrow> ('s, 'a) py" where
  "py_return a = (\<lambda>s. (Inr a, s))"

definition py_raise :: "py_exc \<Rightarrow> ('s, 'a) py" where
  "py_raise e = (\<lambda>s. (Inl e, s))"

definition py_bind :: "('s, 'a) py \<Rightarrow> ('a \<Rightarrow> ('s, 'b) py) \<Rightarrow> ('s, 'b) py" where
  "py_bind m f = (\<lambda>s. case m s of (Inl e, s') \<Rightarrow> (Inl e, s') | (Inr a, s') \<Rightarrow> f a s')"

text \<open>A \<^verbatim>\<open>for\<close> loop over a list: the first exception leaves the loop.\<close>

fun py_for :: "'a list \<Rightarrow> ('a \<Rightarrow> ('s, unit) py) \<Rightarrow> ('s, unit) py" where
  "py_for [] f = py_return ()"
| "py_for (x # xs) f = py_bind (f x) (\<lambda>_. py_for xs f)"

named_theorems py_simps \<open>unfolding rules of the effect combinators\<close>

declare py_return_def [py_simps] py_raise_def [py_simps] py_bind_def [py_simps]


lemma py_for_append:
  "py_for (xs @ ys) f = py_bind (py_for xs f) (\<lambda>_. py_for ys f)"
  by (induction xs) (auto simp: py_simps fun_eq_iff split: prod.splits sum.splits)

text \<open>Sequencing of calls that only return or raise.\<close>

definition res_bind :: "'a res \<Rightarrow> ('a \<Rightarrow> 'b res) \<Rightarrow> 'b res" where
  "res_bind r f = (case r of Inl e \<Rightarrow> Inl e | Inr a \<Rightarrow> f a)"

lemma res_bind_simps [simp]: "res_bind (Inl e) f = Inl e" "res_bind (Inr a) f = f a"
  by (simp_all add: res_bind_def)

lemma res_bind_Inr_iff: "res_bind r f = Inr b \<longleftrightarrow> (\<exists>a. r = Inr a \<and> f a = Inr b)"
  by (cases r) simp_all

text \<open>Code on one component of a pair of states.\<close>

definition on_fst :: "('s, 'a) py \<Rightarrow> ('s \<times> 'o, 'a) py" where
  "on_fst m = (\<lambda>(s, ob). case m s of (r, s') \<Rightarrow> (r, (s', ob)))"

definition of_res :: "'a res \<Rightarrow> ('s, 'a) py" where
  "of_res r = (\<lambda>s. (r, s))"

declare on_fst_def [py_simps] of_res_def [py_simps]

text \<open>A sequence of results: the values when every one is a value, else the first exception.\<close>

fun seq_res :: "'a res list \<Rightarrow> 'a list res" where
  "seq_res [] = Inr []"
| "seq_res (Inl e # _) = Inl e"
| "seq_res (Inr a # rs) = (case seq_res rs of Inl e \<Rightarrow> Inl e | Inr as \<Rightarrow> Inr (a # as))"

lemma seq_res_Inr_map [simp]: "seq_res (map Inr xs) = Inr xs"
  by (induction xs) auto

lemma seq_res_Inl_iff: "(\<exists>e. seq_res rs = Inl e) \<longleftrightarrow> (\<exists>r \<in> set rs. \<exists>e. r = Inl e)"
  by (induction rs rule: seq_res.induct) (auto split: sum.splits)

lemma seq_res_Inl_in: "seq_res rs = Inl e \<Longrightarrow> Inl e \<in> set rs"
  by (induction rs rule: seq_res.induct) (auto split: sum.splits)

section \<open>Lists and integers\<close>

text \<open>Exchanging two places of a list keeps its elements.\<close>

definition swap_at :: "nat \<Rightarrow> nat \<Rightarrow> 'a list \<Rightarrow> 'a list" where
  "swap_at i j xs = xs[i := xs ! j, j := xs ! i]"

lemma length_swap_at [simp]: "length (swap_at i j xs) = length xs"
  by (simp add: swap_at_def)

lemma mset_swap_at [simp]:
  "i < length xs \<Longrightarrow> j < length xs \<Longrightarrow> mset (swap_at i j xs) = mset xs"
  by (simp add: swap_at_def mset_swap)

lemma set_swap_at [simp]:
  "i < length xs \<Longrightarrow> j < length xs \<Longrightarrow> set (swap_at i j xs) = set xs"
  by (rule mset_eq_setD) simp

lemma nth_swap_at:
  "i < length xs \<Longrightarrow> j < length xs \<Longrightarrow> k < length xs \<Longrightarrow>
   swap_at i j xs ! k = (if k = j then xs ! i else if k = i then xs ! j else xs ! k)"
  by (auto simp: swap_at_def nth_list_update)

lemma filter_mset_all: "\<forall>x \<in># M. P x \<Longrightarrow> filter_mset P M = M"
  by (induction M) auto

lemma filter_mset_none: "\<forall>x \<in># M. \<not> P x \<Longrightarrow> filter_mset P M = {#}"
  by (induction M) auto

lemma takeWhile_split:
  "\<forall>x \<in> set xs. P x \<Longrightarrow> \<forall>y \<in> set ys. \<not> P y \<Longrightarrow> takeWhile P (xs @ ys) = xs"
  by (cases ys) simp_all

lemma dropWhile_split:
  "\<forall>x \<in> set xs. P x \<Longrightarrow> \<forall>y \<in> set ys. \<not> P y \<Longrightarrow> dropWhile P (xs @ ys) = ys"
  by (induction xs) (auto simp: neq_Nil_conv intro: dropWhile_eq_self_iff [THEN iffD2])

text \<open>Joining a low byte to higher bits: the bitwise form the code uses is arithmetic.\<close>

unbundle bit_operations_syntax

lemma distinct_map_mset: "mset xs = mset ys \<Longrightarrow> distinct (map f xs) \<longleftrightarrow> distinct (map f ys)"
  by (metis mset_eq_imp_distinct_iff mset_map)

lemma push_or_byte:
  fixes hi lo :: int
  assumes "0 \<le> lo" and "lo < 256"
  shows "push_bit 8 hi OR lo = hi * 256 + lo"
proof -
  have "take_bit 8 lo = lo"
    using assms by (simp add: take_bit_eq_mod)
  then have "push_bit 8 hi OR lo = concat_bit 8 lo hi"
    by (simp add: concat_bit_def or.commute)
  also have "\<dots> = hi * 256 + lo"
    using \<open>take_bit 8 lo = lo\<close> by (simp add: concat_bit_eq push_bit_eq_mult)
  finally show ?thesis .
qed

lemma drop_and_byte:
  fixes n :: int
  shows "drop_bit k n AND 255 = (n div 2 ^ k) mod 256"
proof -
  have "drop_bit k n AND 255 = take_bit 8 (drop_bit k n)"
    by (simp add: take_bit_eq_mask mask_eq_exp_minus_1)
  then show ?thesis
    by (simp add: take_bit_eq_mod drop_bit_eq_div)
qed

end
