(* ===== verification/Heapq.thy ===== *)
theory Heapq imports Prelude begin

text \<open>
  \<^verbatim>\<open>heapq.heappush\<close> and \<^verbatim>\<open>heapq.heappop\<close> of the standard
  library, the binary heap that \<^verbatim>\<open>TaskQueue\<close> is built on. The model follows
  the interpreter's accelerated module step by step, exceptions included: the comparison
  \<open>lt\<close> (Python's \<open><\<close> on the items) may raise, and the list is then left as the
  exchanges made so far have put it. The locale \<open>keyed_order\<close> is what the heap needs
  of the comparison; the lemmas in it hold for every such comparison.
\<close>

section \<open>The operations\<close>

text \<open>
  \<open>siftdown\<close>: the item at \<open>pos\<close> is exchanged with its parent while it is
  smaller. The result is the exception raised, if any, and the list.
\<close>

definition parent_of :: "nat \<Rightarrow> nat" where
  "parent_of pos = (pos - 1) div 2"

lemma parent_of_less: "0 < pos \<Longrightarrow> parent_of pos < pos"
  unfolding parent_of_def by linarith

lemma parent_of_length: "pos < length xs \<Longrightarrow> parent_of pos < length xs"
  unfolding parent_of_def by linarith

lemma parent_of_child [simp]: "parent_of (Suc (2 * p)) = p" "parent_of (Suc (Suc (2 * p))) = p"
  unfolding parent_of_def by simp_all

lemma parent_of_eq_iff: "0 < i \<Longrightarrow> parent_of i = p \<longleftrightarrow> i = 2 * p + 1 \<or> i = 2 * p + 2"
  unfolding parent_of_def by linarith

function siftdown :: "('a \<Rightarrow> 'a \<Rightarrow> bool res) \<Rightarrow> nat \<Rightarrow> nat \<Rightarrow> 'a list \<Rightarrow> py_exc option \<times> 'a list" where
  "siftdown lt startpos pos heap =
     (if length heap \<le> pos then (Some IndexError, heap)
      else if startpos < pos then
        (let parentpos = parent_of pos
         in case lt (heap ! pos) (heap ! parentpos) of
              Inl e \<Rightarrow> (Some e, heap)
            | Inr False \<Rightarrow> (None, heap)
            | Inr True \<Rightarrow> siftdown lt startpos parentpos (swap_at pos parentpos heap))
      else (None, heap))"
  by pat_completeness auto
termination
  by (relation "measure (\<lambda>(lt, startpos, pos, heap). pos)") (auto simp: parent_of_less)

declare siftdown.simps [simp del]

text \<open>
  The first loop of \<open>siftup\<close>: the smaller child moves up until a place without
  children is reached. The result is that place or the exception, and the list.
\<close>

function bubble_to_leaf :: "('a \<Rightarrow> 'a \<Rightarrow> bool res) \<Rightarrow> nat \<Rightarrow> 'a list \<Rightarrow> nat res \<times> 'a list" where
  "bubble_to_leaf lt pos heap =
     (let endpos = length heap
      in if pos < endpos div 2 then
           (let childpos = 2 * pos + 1
            in if childpos + 1 < endpos then
                 (case lt (heap ! childpos) (heap ! (childpos + 1)) of
                    Inl e \<Rightarrow> (Inl e, heap)
                  | Inr smaller \<Rightarrow>
                      (let childpos = (if smaller then childpos else childpos + 1)
                       in bubble_to_leaf lt childpos (swap_at childpos pos heap)))
               else bubble_to_leaf lt childpos (swap_at childpos pos heap))
         else (Inr pos, heap))"
  by pat_completeness auto
termination
  by (relation "measure (\<lambda>(lt, pos, heap). length heap - pos)") auto

declare bubble_to_leaf.simps [simp del]

definition siftup :: "('a \<Rightarrow> 'a \<Rightarrow> bool res) \<Rightarrow> nat \<Rightarrow> 'a list \<Rightarrow> py_exc option \<times> 'a list" where
  "siftup lt pos heap =
     (if length heap \<le> pos then (Some IndexError, heap)
      else case bubble_to_leaf lt pos heap of
             (Inl e, heap') \<Rightarrow> (Some e, heap')
           | (Inr pos', heap') \<Rightarrow> siftdown lt pos pos' heap')"

definition heappush :: "('a \<Rightarrow> 'a \<Rightarrow> bool res) \<Rightarrow> 'a list \<Rightarrow> 'a \<Rightarrow> py_exc option \<times> 'a list" where
  "heappush lt heap item = siftdown lt 0 (length heap) (heap @ [item])"

definition heappop :: "('a \<Rightarrow> 'a \<Rightarrow> bool res) \<Rightarrow> 'a list \<Rightarrow> 'a res \<times> 'a list" where
  "heappop lt heap =
     (if heap = [] then (Inl IndexError, heap)
      else let lastelt = last heap; heap' = butlast heap
           in if heap' = [] then (Inr lastelt, heap')
              else let returnitem = heap' ! 0
                   in case siftup lt 0 (heap'[0 := lastelt]) of
                        (Some e, heap'') \<Rightarrow> (Inl e, heap'')
                      | (None, heap'') \<Rightarrow> (Inr returnitem, heap''))"

section \<open>Nothing is lost or invented\<close>

text \<open>These hold for any comparison, whatever it answers and even when it raises.\<close>

lemma siftdown_step:
  assumes "pos < length heap" and "startpos < pos"
  shows "siftdown lt startpos pos heap =
    (case lt (heap ! pos) (heap ! (parent_of pos)) of
       Inl e \<Rightarrow> (Some e, heap)
     | Inr False \<Rightarrow> (None, heap)
     | Inr True \<Rightarrow> siftdown lt startpos (parent_of pos) (swap_at pos (parent_of pos) heap))"
  using assms by (simp add: siftdown.simps [of lt startpos pos heap] Let_def)

lemma siftdown_stop: "pos < length heap \<Longrightarrow> pos \<le> startpos \<Longrightarrow> siftdown lt startpos pos heap = (None, heap)"
  by (simp add: siftdown.simps [of lt startpos pos heap])

text \<open>
  The loops by an invariant: \<open>siftdown\<close> keeps whatever each exchange keeps, and ends
  where it stops, by an answer of the comparison or at the start position.
\<close>

lemma siftdown_induct:
  assumes "pos < length heap"
    and "\<And>pos heap. pos < length heap \<Longrightarrow> pos \<le> startpos \<Longrightarrow> I pos heap \<Longrightarrow> Q None heap"
    and "\<And>pos heap. pos < length heap \<Longrightarrow> startpos < pos \<Longrightarrow> I pos heap \<Longrightarrow>
          lt (heap ! pos) (heap ! (parent_of pos)) = Inr False \<Longrightarrow> Q None heap"
    and "\<And>pos heap e. pos < length heap \<Longrightarrow> startpos < pos \<Longrightarrow> I pos heap \<Longrightarrow>
          lt (heap ! pos) (heap ! (parent_of pos)) = Inl e \<Longrightarrow> Q (Some e) heap"
    and "\<And>pos heap. pos < length heap \<Longrightarrow> startpos < pos \<Longrightarrow> I pos heap \<Longrightarrow>
          lt (heap ! pos) (heap ! (parent_of pos)) = Inr True \<Longrightarrow>
          I (parent_of pos) (swap_at pos (parent_of pos) heap)"
    and "I pos heap"
  shows "Q (fst (siftdown lt startpos pos heap)) (snd (siftdown lt startpos pos heap))"
  using assms(1,6)
proof (induction pos arbitrary: heap rule: less_induct)
  case (less pos)
  let ?par = "parent_of pos"
  show ?case
  proof (cases "pos \<le> startpos")
    case True
    with less.prems assms(2) show ?thesis by (simp add: siftdown_stop)
  next
    case False
    then have pos: "startpos < pos" "?par < pos" by (simp_all add: parent_of_less)
    show ?thesis
    proof (cases "lt (heap ! pos) (heap ! ?par)")
      case (Inl e)
      with pos less.prems assms(4) show ?thesis by (simp add: siftdown_step)
    next
      case (Inr b)
      show ?thesis
      proof (cases b)
        case True
        have "?par < length (swap_at pos ?par heap)" using pos(2) less.prems(1) by simp
        from less.IH [OF pos(2) this] Inr True show ?thesis
          using pos less.prems assms(5) [of pos heap] by (simp add: siftdown_step)
      next
        case False
        with Inr pos less.prems assms(3) show ?thesis by (simp add: siftdown_step)
      qed
    qed
  qed
qed

lemma mset_siftdown: "pos < length heap \<Longrightarrow> mset (snd (siftdown lt startpos pos heap)) = mset heap"
  by (rule siftdown_induct [where I = "\<lambda>_ h. mset h = mset heap" and Q = "\<lambda>_ h. mset h = mset heap"])
    (auto simp: parent_of_length)

lemma bubble_to_leaf_step:
  assumes "pos < length heap div 2"
  shows "bubble_to_leaf lt pos heap =
    (if 2 * pos + 2 < length heap then
       (case lt (heap ! (2 * pos + 1)) (heap ! (2 * pos + 2)) of
          Inl e \<Rightarrow> (Inl e, heap)
        | Inr True \<Rightarrow> bubble_to_leaf lt (2 * pos + 1) (swap_at (2 * pos + 1) pos heap)
        | Inr False \<Rightarrow> bubble_to_leaf lt (2 * pos + 2) (swap_at (2 * pos + 2) pos heap))
     else bubble_to_leaf lt (2 * pos + 1) (swap_at (2 * pos + 1) pos heap))"
  using assms
  by (simp add: bubble_to_leaf.simps [of lt pos heap] Let_def split: sum.split bool.split)

lemma bubble_to_leaf_stop:
  "\<not> pos < length heap div 2 \<Longrightarrow> bubble_to_leaf lt pos heap = (Inr pos, heap)"
  by (simp add: bubble_to_leaf.simps [of lt pos heap])

lemma bubble_to_leaf_induct:
  assumes "pos < length heap"
    and "\<And>pos heap. pos < length heap \<Longrightarrow> length heap \<le> 2 * pos + 1 \<Longrightarrow> I pos heap \<Longrightarrow> Q (Inr pos) heap"
    and "\<And>pos heap e. 2 * pos + 2 < length heap \<Longrightarrow> I pos heap \<Longrightarrow>
          lt (heap ! (2 * pos + 1)) (heap ! (2 * pos + 2)) = Inl e \<Longrightarrow> Q (Inl e) heap"
    and "\<And>pos heap. 2 * pos + 2 < length heap \<Longrightarrow> I pos heap \<Longrightarrow>
          lt (heap ! (2 * pos + 1)) (heap ! (2 * pos + 2)) = Inr True \<Longrightarrow>
          I (2 * pos + 1) (swap_at (2 * pos + 1) pos heap)"
    and "\<And>pos heap. 2 * pos + 2 < length heap \<Longrightarrow> I pos heap \<Longrightarrow>
          lt (heap ! (2 * pos + 1)) (heap ! (2 * pos + 2)) = Inr False \<Longrightarrow>
          I (2 * pos + 2) (swap_at (2 * pos + 2) pos heap)"
    and "\<And>pos heap. length heap = 2 * pos + 2 \<Longrightarrow> I pos heap \<Longrightarrow>
          I (2 * pos + 1) (swap_at (2 * pos + 1) pos heap)"
    and "I pos heap"
  shows "Q (fst (bubble_to_leaf lt pos heap)) (snd (bubble_to_leaf lt pos heap))"
  using assms(1,7)
proof (induction "length heap - pos" arbitrary: pos heap rule: less_induct)
  case (less pos heap)
  consider (leaf) "length heap \<le> 2 * pos + 1" | (one) "length heap = 2 * pos + 2"
    | (two) "2 * pos + 2 < length heap" by linarith
  then show ?case
  proof cases
    case leaf
    with less.prems assms(2) show ?thesis by (simp add: bubble_to_leaf_stop)
  next
    case one
    from less.hyps [of "swap_at (2 * pos + 1) pos heap" "2 * pos + 1"] one less.prems assms(6)
    show ?thesis by (simp add: bubble_to_leaf_step)
  next
    case two
    then have half: "pos < length heap div 2" by linarith
    show ?thesis
    proof (cases "lt (heap ! (2 * pos + 1)) (heap ! (2 * pos + 2))")
      case (Inl e)
      with two half less.prems assms(3) show ?thesis by (simp add: bubble_to_leaf_step)
    next
      case (Inr b)
      with less.hyps [of "swap_at (2 * pos + 1) pos heap" "2 * pos + 1"]
        less.hyps [of "swap_at (2 * pos + 2) pos heap" "2 * pos + 2"]
        two half less.prems assms(4) [of pos heap] assms(5) [of pos heap]
      show ?thesis by (cases b) (simp_all add: bubble_to_leaf_step)
    qed
  qed
qed

lemma bubble_to_leaf_bound:
  assumes "pos < length heap"
  shows "\<forall>p. fst (bubble_to_leaf lt pos heap) = Inr p \<longrightarrow> p < length (snd (bubble_to_leaf lt pos heap))"
  by (rule bubble_to_leaf_induct [where I = "\<lambda>_ _. True"
        and Q = "\<lambda>r h. \<forall>p. r = Inr p \<longrightarrow> p < length h"])
    (use assms in auto)

lemma mset_bubble_to_leaf:
  "pos < length heap \<Longrightarrow> mset (snd (bubble_to_leaf lt pos heap)) = mset heap"
  by (rule bubble_to_leaf_induct [where I = "\<lambda>_ h. mset h = mset heap" and Q = "\<lambda>_ h. mset h = mset heap"])
    auto

lemma mset_siftup: "pos < length heap \<Longrightarrow> mset (snd (siftup lt pos heap)) = mset heap"
  using bubble_to_leaf_bound [of pos heap lt] mset_bubble_to_leaf [of pos heap lt]
  by (cases "bubble_to_leaf lt pos heap") (auto simp: siftup_def mset_siftdown split: sum.splits)

lemma mset_heappush: "mset (snd (heappush lt heap item)) = add_mset item (mset heap)"
  by (simp add: heappush_def mset_siftdown)

lemma length_eq_of_mset: "mset xs = mset ys \<Longrightarrow> length xs = length ys"
  by (metis size_mset)

text \<open>What a pop takes out: the first item, also when the comparison raises afterwards.\<close>

lemma mset_heappop:
  assumes "heap \<noteq> []"
  shows "mset heap = add_mset (heap ! 0) (mset (snd (heappop lt heap)))"
proof -
  obtain xs x where heap: "heap = xs @ [x]" using assms by (cases heap rule: rev_cases) auto
  show ?thesis
  proof (cases xs)
    case Nil
    then show ?thesis by (simp add: heappop_def heap)
  next
    case (Cons y ys)
    have "mset (snd (siftup lt 0 (x # ys))) = add_mset x (mset ys)"
      by (simp add: mset_siftup)
    then show ?thesis
      by (auto simp: heappop_def heap Cons Let_def split: prod.splits option.splits)
  qed
qed

lemma heappop_result:
  assumes "fst (heappop lt heap) = Inr r"
  shows "heap \<noteq> [] \<and> r = heap ! 0"
  using assms by (cases heap rule: rev_cases)
    (auto simp: heappop_def Let_def nth_append split: if_splits prod.splits option.splits)

text \<open>An exception that leaves an operation is one the comparison raised on two items of the list.\<close>

definition raises_on :: "('a \<Rightarrow> 'a \<Rightarrow> bool res) \<Rightarrow> 'a set \<Rightarrow> py_exc \<Rightarrow> bool" where
  "raises_on lt S e \<longleftrightarrow> (\<exists>a \<in> S. \<exists>b \<in> S. lt a b = Inl e)"

lemma raises_on_nth:
  "lt (h ! i) (h ! j) = Inl e \<Longrightarrow> i < length h \<Longrightarrow> j < length h \<Longrightarrow> set h = S \<Longrightarrow> raises_on lt S e"
  unfolding raises_on_def by (metis nth_mem)

lemma raises_on_mono: "raises_on lt S e \<Longrightarrow> S \<subseteq> T \<Longrightarrow> raises_on lt T e"
  by (auto simp: raises_on_def)

lemma siftdown_raises:
  assumes "pos < length heap" and "fst (siftdown lt startpos pos heap) = Some e"
  shows "raises_on lt (set heap) e"
proof -
  have "fst (siftdown lt startpos pos heap) = Some e \<longrightarrow> raises_on lt (set heap) e"
    by (rule siftdown_induct [where I = "\<lambda>_ h. set h = set heap" and
          Q = "\<lambda>r h. r = Some e \<longrightarrow> raises_on lt (set heap) e"])
      (use assms(1) in \<open>auto simp: parent_of_length intro: raises_on_nth\<close>)
  with assms(2) show ?thesis by simp
qed

lemma bubble_to_leaf_raises:
  assumes "pos < length heap" and "fst (bubble_to_leaf lt pos heap) = Inl e"
  shows "raises_on lt (set heap) e"
proof -
  have "fst (bubble_to_leaf lt pos heap) = Inl e \<longrightarrow> raises_on lt (set heap) e"
    by (rule bubble_to_leaf_induct [where I = "\<lambda>_ h. set h = set heap" and
          Q = "\<lambda>r h. r = Inl e \<longrightarrow> raises_on lt (set heap) e"])
      (use assms(1) in \<open>auto intro: raises_on_nth\<close>)
  with assms(2) show ?thesis by simp
qed

lemma siftup_raises:
  assumes "pos < length heap" and "fst (siftup lt pos heap) = Some e"
  shows "raises_on lt (set heap) e"
proof (cases "bubble_to_leaf lt pos heap")
  case (Pair r heap')
  have set: "set heap' = set heap"
    using mset_bubble_to_leaf [OF assms(1), of lt] Pair by (auto dest: mset_eq_setD)
  show ?thesis
  proof (cases r)
    case (Inl e')
    with Pair assms show ?thesis
      using bubble_to_leaf_raises [OF assms(1), of lt e] by (simp add: siftup_def)
  next
    case (Inr p)
    with Pair assms bubble_to_leaf_bound [OF assms(1), of lt] show ?thesis
      using siftdown_raises [of p heap' lt pos e] set by (simp add: siftup_def)
  qed
qed

lemma heappush_raises:
  assumes "fst (heappush lt heap x) = Some e"
  shows "raises_on lt (insert x (set heap)) e"
  using siftdown_raises [of "length heap" "heap @ [x]" lt 0 e] assms by (simp add: heappush_def)

text \<open>A push compares the new item with items of the list only.\<close>

lemma nth_in_rest:
  assumes "i < length xs" and "j < length xs" and "i \<noteq> j" and "mset xs = add_mset (xs ! j) (mset ys)"
  shows "xs ! i \<in> set ys"
proof -
  have "mset (as @ b # cs) = add_mset b (mset (as @ cs))" for as cs and b :: 'a by simp
  from this [of "take j xs" "xs ! j" "drop (Suc j) xs"]
  have "add_mset (xs ! j) (mset ys) = add_mset (xs ! j) (mset (take j xs @ drop (Suc j) xs))"
    unfolding id_take_nth_drop [OF assms(2), symmetric] assms(4) .
  then have "set ys = set (take j xs @ drop (Suc j) xs)"
    by (intro mset_eq_setD) (simp only: add_mset_add_mset_same_iff)
  moreover have "xs ! i \<in> set (take j xs @ drop (Suc j) xs)"
  proof (cases "i < j")
    case True
    then show ?thesis using assms(1) by (auto simp: in_set_conv_nth intro!: exI [of _ i])
  next
    case False
    then have "xs ! i = drop (Suc j) xs ! (i - Suc j)" "i - Suc j < length (drop (Suc j) xs)"
      using assms by (simp_all add: less_diff_conv)
    from nth_mem [OF this(2)] this(1) show ?thesis by simp
  qed
  ultimately show ?thesis by simp
qed

lemma heappush_raises_item:
  assumes "fst (heappush lt heap x) = Some e"
  shows "\<exists>y \<in> set heap. lt x y = Inl e"
proof -
  let ?I = "\<lambda>pos h. h ! pos = x \<and> mset h = add_mset x (mset heap)"
  have "fst (siftdown lt 0 (length heap) (heap @ [x])) = Some e \<longrightarrow> (\<exists>y \<in> set heap. lt x y = Inl e)"
  proof (rule siftdown_induct [where I = ?I and Q = "\<lambda>r _. r = Some e \<longrightarrow> (\<exists>y \<in> set heap. lt x y = Inl e)"])
    fix pos h e'
    assume "pos < length h" "0 < pos" "?I pos h" "lt (h ! pos) (h ! parent_of pos) = Inl e'"
    then show "Some e' = Some e \<longrightarrow> (\<exists>y \<in> set heap. lt x y = Inl e)"
      using nth_in_rest [of "parent_of pos" h pos heap] parent_of_less [of pos] by auto
  next
    fix pos h
    assume "pos < length h" "0 < pos" "?I pos h"
    then show "?I (parent_of pos) (swap_at pos (parent_of pos) h)"
      using parent_of_length [of pos h] by (simp add: nth_swap_at)
  qed auto
  with assms show ?thesis by (simp add: heappush_def)
qed

lemma heappop_raises:
  assumes "heap \<noteq> []" and "fst (heappop lt heap) = Inl e"
  shows "raises_on lt (set heap) e"
proof -
  obtain xs x where eq: "heap = xs @ [x]"
    using assms(1) by (cases heap rule: rev_cases) auto
  with assms(2) have xs: "xs \<noteq> []" and "fst (siftup lt 0 (xs[0 := x])) = Some e"
    by (auto simp: heappop_def Let_def split: if_splits prod.splits option.splits)
  with siftup_raises [of 0 "xs[0 := x]" lt e]
  have "raises_on lt (set (xs[0 := x])) e" by simp
  moreover have "set (xs[0 := x]) \<subseteq> set heap"
    using set_update_subset_insert [of xs 0 x] by (auto simp: eq)
  ultimately show ?thesis by (rule raises_on_mono)
qed

section \<open>Heap order\<close>

text \<open>
  Every item's key is at least its parent's. The two loops leave the order open at one
  place: \<open>up_open pos\<close> (the item at \<open>pos\<close> may be smaller than its parent) and
  \<open>down_open pos\<close> (it may be greater than its children).
\<close>

definition is_heap :: "('a \<Rightarrow> 'k::linorder) \<Rightarrow> 'a list \<Rightarrow> bool" where
  "is_heap key h \<longleftrightarrow> (\<forall>i < length h. 0 < i \<longrightarrow> key (h ! parent_of i) \<le> key (h ! i))"

definition up_open :: "('a \<Rightarrow> 'k::linorder) \<Rightarrow> nat \<Rightarrow> 'a list \<Rightarrow> bool" where
  "up_open key pos h \<longleftrightarrow>
     (\<forall>i < length h. 0 < i \<longrightarrow>
        (i \<noteq> pos \<longrightarrow> key (h ! parent_of i) \<le> key (h ! i)) \<and>
        (parent_of i = pos \<longrightarrow> 0 < pos \<longrightarrow> key (h ! parent_of pos) \<le> key (h ! i)))"

definition down_open :: "('a \<Rightarrow> 'k::linorder) \<Rightarrow> nat \<Rightarrow> 'a list \<Rightarrow> bool" where
  "down_open key pos h \<longleftrightarrow>
     (\<forall>i < length h. 0 < i \<longrightarrow>
        (i \<noteq> pos \<longrightarrow> parent_of i \<noteq> pos \<longrightarrow> key (h ! parent_of i) \<le> key (h ! i)) \<and>
        (parent_of i = pos \<longrightarrow> 0 < pos \<longrightarrow> key (h ! parent_of pos) \<le> key (h ! i)))"

lemma is_heapI: "up_open key pos h \<Longrightarrow> (0 < pos \<Longrightarrow> key (h ! parent_of pos) \<le> key (h ! pos)) \<Longrightarrow> is_heap key h"
  by (auto simp: is_heap_def up_open_def)

lemma is_heap_Nil [simp]: "is_heap key []"
  by (simp add: is_heap_def)

lemma is_heap_up_open:
  assumes "is_heap key h"
  shows "up_open key (length h) (h @ [x])"
  unfolding up_open_def
proof (intro allI impI)
  fix i assume "i < length (h @ [x])" "0 < i"
  then show "(i \<noteq> length h \<longrightarrow> key ((h @ [x]) ! parent_of i) \<le> key ((h @ [x]) ! i)) \<and>
      (parent_of i = length h \<longrightarrow> 0 < length h \<longrightarrow>
        key ((h @ [x]) ! parent_of (length h)) \<le> key ((h @ [x]) ! i))"
    using assms parent_of_less [of i] by (auto simp: is_heap_def nth_append)
qed

lemma down_open_leaf: "down_open key pos h \<Longrightarrow> length h \<le> 2 * pos + 1 \<Longrightarrow> up_open key pos h"
  by (auto simp: down_open_def up_open_def parent_of_eq_iff)

lemma down_open_root: "is_heap key h \<Longrightarrow> down_open key 0 (h[0 := x])"
  by (auto simp: is_heap_def down_open_def nth_list_update)

lemma is_heap_butlast: "is_heap key h \<Longrightarrow> is_heap key (butlast h)"
  unfolding is_heap_def
proof (intro allI impI)
  assume h: "\<forall>i < length h. 0 < i \<longrightarrow> key (h ! parent_of i) \<le> key (h ! i)"
  fix i assume i: "i < length (butlast h)" "0 < i"
  with parent_of_less [of i] have "parent_of i < length (butlast h)" by simp
  with h i show "key (butlast h ! parent_of i) \<le> key (butlast h ! i)"
    by (simp add: nth_butlast)
qed

lemma up_open_swap:
  assumes up: "up_open key pos h" and pos: "0 < pos" "pos < length h"
    and less: "key (h ! pos) \<le> key (h ! parent_of pos)"
  shows "up_open key (parent_of pos) (swap_at pos (parent_of pos) h)"
  unfolding up_open_def
proof (intro allI impI)
  let ?p = "parent_of pos" and ?h = "swap_at pos (parent_of pos) h"
  fix i assume i: "i < length ?h" "0 < i"
  note par = parent_of_less [OF i(2)] parent_of_less [OF pos(1)]
  have up': "\<And>j. j < length h \<Longrightarrow> 0 < j \<Longrightarrow> j \<noteq> pos \<Longrightarrow> key (h ! parent_of j) \<le> key (h ! j)"
    and up'': "\<And>j. j < length h \<Longrightarrow> 0 < j \<Longrightarrow> parent_of j = pos \<Longrightarrow> key (h ! ?p) \<le> key (h ! j)"
    using up pos by (auto simp: up_open_def)
  have nth: "?h ! k = (if k = ?p then h ! pos else if k = pos then h ! ?p else h ! k)"
    if "k < length h" for k
    using that pos par by (simp add: nth_swap_at)
  have grand: "key (h ! parent_of ?p) \<le> key (h ! ?p)" if "0 < ?p"
    using up' [of ?p] that par pos by simp
  show "(i \<noteq> ?p \<longrightarrow> key (?h ! parent_of i) \<le> key (?h ! i)) \<and>
        (parent_of i = ?p \<longrightarrow> 0 < ?p \<longrightarrow> key (?h ! parent_of ?p) \<le> key (?h ! i))"
    using i par pos less up' [of i] up'' [of i] grand parent_of_less [of ?p]
    by (auto simp: nth split: if_splits)
qed

lemma down_open_swap:
  assumes down: "down_open key pos h"
    and c: "parent_of c = pos" "0 < c" "c < length h"
    and least: "\<And>i. i < length h \<Longrightarrow> 0 < i \<Longrightarrow> parent_of i = pos \<Longrightarrow> key (h ! c) \<le> key (h ! i)"
  shows "down_open key c (swap_at c pos h)"
  unfolding down_open_def
proof (intro allI impI)
  let ?h = "swap_at c pos h"
  fix i assume i: "i < length ?h" "0 < i"
  note par = parent_of_less [OF i(2)] parent_of_less [OF c(2)]
  have nth: "?h ! k = (if k = pos then h ! c else if k = c then h ! pos else h ! k)"
    if "k < length h" for k
    using that c par by (simp add: nth_swap_at)
  have d1: "\<And>j. j < length h \<Longrightarrow> 0 < j \<Longrightarrow> j \<noteq> pos \<Longrightarrow> parent_of j \<noteq> pos \<Longrightarrow> key (h ! parent_of j) \<le> key (h ! j)"
    and d2: "\<And>j. j < length h \<Longrightarrow> 0 < j \<Longrightarrow> parent_of j = pos \<Longrightarrow> 0 < pos \<Longrightarrow> key (h ! parent_of pos) \<le> key (h ! j)"
    using down by (auto simp: down_open_def)
  show "(i \<noteq> c \<longrightarrow> parent_of i \<noteq> c \<longrightarrow> key (?h ! parent_of i) \<le> key (?h ! i)) \<and>
        (parent_of i = c \<longrightarrow> 0 < c \<longrightarrow> key (?h ! parent_of c) \<le> key (?h ! i))"
    using i par c d1 [of i] d2 [of c] least [of i]
    by (auto simp: nth split: if_splits)
qed

section \<open>What the heap needs of the comparison\<close>

text \<open>
  A key in a linear order that the comparison respects: an answer agrees with the keys,
  and the comparison raises on equal keys only. Ties may be answered either way.
\<close>

locale keyed_order =
  fixes lt :: "'a \<Rightarrow> 'a \<Rightarrow> bool res" and key :: "'a \<Rightarrow> 'k::linorder"
  assumes lt_True: "lt a b = Inr True \<Longrightarrow> key a \<le> key b"
    and lt_False: "lt a b = Inr False \<Longrightarrow> key b \<le> key a"
    and lt_raises: "lt a b = Inl e \<Longrightarrow> key a = key b"
begin

lemma lt_raises_le: "lt a b = Inl e \<Longrightarrow> key b \<le> key a"
  using lt_raises [of a b e] by simp

lemma siftdown_heap:
  assumes "pos < length h" and "up_open key pos h"
  shows "is_heap key (snd (siftdown lt 0 pos h))"
  by (rule siftdown_induct [where I = "up_open key" and Q = "\<lambda>_. is_heap key"])
    (use assms in \<open>auto intro: is_heapI up_open_swap dest: lt_True lt_False lt_raises_le\<close>)

text \<open>A push keeps the heap order even when the comparison raises on the way.\<close>

lemma heappush_heap: "is_heap key h \<Longrightarrow> is_heap key (snd (heappush lt h x))"
  by (simp add: heappush_def siftdown_heap is_heap_up_open)

lemma bubble_to_leaf_heap:
  assumes "pos < length h" and "down_open key pos h"
  shows "\<forall>p. fst (bubble_to_leaf lt pos h) = Inr p \<longrightarrow> up_open key p (snd (bubble_to_leaf lt pos h))"
proof (rule bubble_to_leaf_induct [where I = "down_open key"
      and Q = "\<lambda>r h. \<forall>p. r = Inr p \<longrightarrow> up_open key p h"])
  fix pos and h :: "'a list"
  assume h: "2 * pos + 2 < length h" "down_open key pos h"
    and t: "lt (h ! (2 * pos + 1)) (h ! (2 * pos + 2)) = Inr True"
  show "down_open key (2 * pos + 1) (swap_at (2 * pos + 1) pos h)"
    by (rule down_open_swap) (use h lt_True [OF t] in \<open>auto simp: parent_of_eq_iff\<close>)
next
  fix pos and h :: "'a list"
  assume h: "2 * pos + 2 < length h" "down_open key pos h"
    and f: "lt (h ! (2 * pos + 1)) (h ! (2 * pos + 2)) = Inr False"
  show "down_open key (2 * pos + 2) (swap_at (2 * pos + 2) pos h)"
    by (rule down_open_swap) (use h lt_False [OF f] in \<open>auto simp: parent_of_eq_iff\<close>)
next
  fix pos and h :: "'a list"
  assume h: "length h = 2 * pos + 2" "down_open key pos h"
  show "down_open key (2 * pos + 1) (swap_at (2 * pos + 1) pos h)"
    by (rule down_open_swap) (use h in \<open>auto simp: parent_of_eq_iff\<close>)
qed (use assms in \<open>auto intro: down_open_leaf\<close>)

lemma siftup_heap:
  assumes "0 < length h" and "down_open key 0 h" and "fst (siftup lt 0 h) = None"
  shows "is_heap key (snd (siftup lt 0 h))"
  using assms bubble_to_leaf_heap [of 0 h] bubble_to_leaf_bound [of 0 h lt]
  by (cases "bubble_to_leaf lt 0 h") (auto simp: siftup_def siftdown_heap split: sum.splits)

lemma heappop_heap:
  assumes h: "is_heap key h" and r: "fst (heappop lt h) = Inr r"
  shows "is_heap key (snd (heappop lt h))"
proof -
  obtain xs x where eq: "h = xs @ [x]"
    using heappop_result [OF r] by (cases h rule: rev_cases) auto
  have "down_open key 0 (xs[0 := x])"
    using is_heap_butlast [OF h] by (intro down_open_root) (simp add: eq)
  then show ?thesis
    using r siftup_heap [of "xs[0 := x]"]
    by (simp add: heappop_def Let_def eq split: if_splits prod.splits option.splits)
qed

lemma heap_root_least:
  assumes "is_heap key h" and "x \<in> set h"
  shows "key (h ! 0) \<le> key x"
proof -
  have "i < length h \<Longrightarrow> key (h ! 0) \<le> key (h ! i)" for i
  proof (induction i rule: less_induct)
    case (less i)
    show ?case
    proof (cases "i = 0")
      case False
      then have "parent_of i < i" by (simp add: parent_of_less)
      with less have "key (h ! 0) \<le> key (h ! parent_of i)" by simp
      also have "\<dots> \<le> key (h ! i)" using assms(1) less.prems False by (simp add: is_heap_def)
      finally show ?thesis .
    qed simp
  qed
  then show ?thesis using assms(2) by (auto simp: in_set_conv_nth)
qed

end

end
