(* ===== verification/TaskQueue.thy ===== *)
theory TaskQueue imports Heapq begin

text \<open>
  \<^verbatim>\<open>TaskQueue\<close> of \<^verbatim>\<open>lwip_py/utility/scheduler.py\<close>: a heap of
  \<^verbatim>\<open>(abs_time, priority, task)\<close> triples. Times are exact rationals (every finite
  float is one); priorities are unbounded integers. Python compares two triples
  component by component, so two tasks of equal time and priority are compared as tuples
  themselves: by their actions (callables have no order: \<open>TypeError\<close>), then by their
  arguments (\<open>olt\<close>, the order of the user's objects, is a parameter), then by their
  futures (\<open>TypeError\<close>).
\<close>

section \<open>Tasks and their comparison\<close>

record ('a, 'v) task =
  abs_time :: rat
  priority :: int
  action :: 'a
  args :: "'v list"
  kwargs :: "(string \<times> 'v) list"
  future :: nat

type_synonym ('a, 'v) item = "rat \<times> int \<times> ('a, 'v) task"

fun tuple_lt :: "('v \<Rightarrow> 'v \<Rightarrow> bool res) \<Rightarrow> 'v list \<Rightarrow> 'v list \<Rightarrow> bool res" where
  "tuple_lt olt [] ys = Inr (ys \<noteq> [])"
| "tuple_lt olt (x # xs) [] = Inr False"
| "tuple_lt olt (x # xs) (y # ys) = (if x = y then tuple_lt olt xs ys else olt x y)"

definition task_lt :: "('v \<Rightarrow> 'v \<Rightarrow> bool res) \<Rightarrow> ('a, 'v) task \<Rightarrow> ('a, 'v) task \<Rightarrow> bool res" where
  "task_lt olt a b =
     (if abs_time a \<noteq> abs_time b then Inr (abs_time a < abs_time b)
      else if priority a \<noteq> priority b then Inr (priority a < priority b)
      else if action a \<noteq> action b then Inl TypeError
      else if args a \<noteq> args b then tuple_lt olt (args a) (args b)
      else if kwargs a \<noteq> kwargs b then Inl TypeError
      else if future a \<noteq> future b then Inl TypeError
      else Inr False)"

fun item_lt :: "('v \<Rightarrow> 'v \<Rightarrow> bool res) \<Rightarrow> ('a, 'v) item \<Rightarrow> ('a, 'v) item \<Rightarrow> bool res" where
  "item_lt olt (t1, p1, k1) (t2, p2, k2) =
     (if t1 \<noteq> t2 then Inr (t1 < t2)
      else if p1 \<noteq> p2 then Inr (p1 < p2)
      else if k1 \<noteq> k2 then task_lt olt k1 k2
      else Inr False)"

text \<open>The key the documentation names: time first, then priority.\<close>

datatype task_key = Task_Key (key_time: rat) (key_prio: int)

instantiation task_key :: linorder
begin

definition less_eq_task_key :: "task_key \<Rightarrow> task_key \<Rightarrow> bool" where
  "less_eq_task_key a b \<longleftrightarrow>
     key_time a < key_time b \<or> (key_time a = key_time b \<and> key_prio a \<le> key_prio b)"

definition less_task_key :: "task_key \<Rightarrow> task_key \<Rightarrow> bool" where
  "less_task_key a b \<longleftrightarrow>
     key_time a < key_time b \<or> (key_time a = key_time b \<and> key_prio a < key_prio b)"

instance
  by standard (auto simp: less_eq_task_key_def less_task_key_def task_key.expand)

end

definition task_key :: "('a, 'v) task \<Rightarrow> task_key" where
  "task_key t = Task_Key (abs_time t) (priority t)"

fun item_key :: "('a, 'v) item \<Rightarrow> task_key" where
  "item_key (t, p, k) = Task_Key t p"

text \<open>The triple the queue stores for a task, and that triple's task.\<close>

definition item_of :: "('a, 'v) task \<Rightarrow> ('a, 'v) item" where
  "item_of task = (abs_time task, priority task, task)"

definition item_task :: "('a, 'v) item \<Rightarrow> ('a, 'v) task" where
  "item_task = (\<lambda>(_, _, task). task)"

lemma item_task_item_of [simp]: "item_task (item_of t) = t"
  by (simp add: item_task_def item_of_def)

lemma item_key_item_of [simp]: "item_key (item_of t) = task_key t"
  by (simp add: item_of_def task_key_def)

text \<open>
  The comparison respects the key and raises on equal keys only, whatever the order of
  the user's objects is: the heap lemmas apply.
\<close>

lemma item_lt_on_items:
  "item_lt olt (item_of a) (item_of b) = (if a = b then Inr False else task_lt olt a b)"
  by (simp add: item_of_def task_lt_def)

interpretation hq: keyed_order "item_lt olt" item_key for olt :: "'v \<Rightarrow> 'v \<Rightarrow> bool res"
proof
  fix a b :: "('a, 'v) item" and e
  obtain t1 p1 k1 t2 p2 k2 where ab: "a = (t1, p1, k1)" "b = (t2, p2, k2)"
    by (cases a; cases b) auto
  show "item_lt olt a b = Inr True \<Longrightarrow> item_key a \<le> item_key b"
    and "item_lt olt a b = Inr False \<Longrightarrow> item_key b \<le> item_key a"
    and "item_lt olt a b = Inl e \<Longrightarrow> item_key a = item_key b"
    by (auto simp: ab less_eq_task_key_def split: if_splits)
qed

section \<open>The queue's operations\<close>

type_synonym ('a, 'v) task_queue = "('a, 'v) item list"

definition new_queue :: "('a, 'v) task_queue" where
  "new_queue = []"

definition schedule_task ::
  "('v \<Rightarrow> 'v \<Rightarrow> bool res) \<Rightarrow> ('a, 'v) task \<Rightarrow> ('a, 'v) task_queue \<Rightarrow> py_exc option \<times> ('a, 'v) task_queue" where
  "schedule_task olt task queue = heappush (item_lt olt) queue (abs_time task, priority task, task)"

definition empty :: "('a, 'v) task_queue \<Rightarrow> bool" where
  "empty queue \<longleftrightarrow> queue = []"

text \<open>
  The loop of \<open>pop_tasks_till_timestamp\<close>: the head is appended to the result before it
  is popped, and a comparison that raises in the pop loses the tasks collected so far.
\<close>

lemma heappop_shorter: "heappop lt h = (r, h') \<Longrightarrow> h \<noteq> [] \<Longrightarrow> length h' < length h"
  using length_eq_of_mset [of h "h ! 0 # h'"] mset_heappop [of h lt] by simp

function pop_loop ::
  "('v \<Rightarrow> 'v \<Rightarrow> bool res) \<Rightarrow> rat \<Rightarrow> ('a, 'v) task list \<Rightarrow> ('a, 'v) task_queue \<Rightarrow>
   ('a, 'v) task list res \<times> ('a, 'v) task_queue" where
  "pop_loop olt timestamp tasks queue =
     (case queue of
        [] \<Rightarrow> (Inr tasks, queue)
      | (task_time, _, task) # _ \<Rightarrow>
          if task_time \<le> timestamp then
            (case heappop (item_lt olt) queue of
               (Inl e, queue') \<Rightarrow> (Inl e, queue')
             | (Inr _, queue') \<Rightarrow> pop_loop olt timestamp (tasks @ [task]) queue')
          else (Inr tasks, queue))"
  by pat_completeness auto
termination
  by (relation "measure (\<lambda>(olt, timestamp, tasks, queue). length queue)") (auto dest: heappop_shorter [OF sym])

declare pop_loop.simps [simp del]

lemma pop_loop_Nil [simp]: "pop_loop olt ts acc [] = (Inr acc, [])"
  by (simp add: pop_loop.simps [of olt ts acc "[]"])

lemma pop_loop_later [simp]: "\<not> tm \<le> ts \<Longrightarrow> pop_loop olt ts acc ((tm, p, k) # q) = (Inr acc, (tm, p, k) # q)"
  by (simp add: pop_loop.simps [of olt ts acc "(tm, p, k) # q"])

lemma pop_loop_due [simp]:
  "tm \<le> ts \<Longrightarrow> pop_loop olt ts acc ((tm, p, k) # q) =
     (case heappop (item_lt olt) ((tm, p, k) # q) of
        (Inl e, q') \<Rightarrow> (Inl e, q')
      | (Inr _, q') \<Rightarrow> pop_loop olt ts (acc @ [k]) q')"
  by (simp add: pop_loop.simps [of olt ts acc "(tm, p, k) # q"])

definition pop_tasks_till_timestamp ::
  "('v \<Rightarrow> 'v \<Rightarrow> bool res) \<Rightarrow> rat \<Rightarrow> ('a, 'v) task_queue \<Rightarrow>
   ('a, 'v) task list res \<times> ('a, 'v) task_queue" where
  "pop_tasks_till_timestamp olt timestamp queue = pop_loop olt timestamp [] queue"

definition get_time_till_next_task :: "rat \<Rightarrow> ('a, 'v) task_queue \<Rightarrow> rat option" where
  "get_time_till_next_task timestamp queue =
     (case queue of [] \<Rightarrow> None | (task_time, _, _) # _ \<Rightarrow> Some (task_time - timestamp))"

definition get_tasks :: "('a, 'v) task_queue \<Rightarrow> ('a, 'v) task list" where
  "get_tasks queue = map item_task queue"

lemma get_tasks_empty [simp]: "get_tasks [] = []"
  by (simp add: get_tasks_def)

text \<open>What every queue that the operations build satisfies.\<close>

definition queue_ok :: "('a, 'v) task_queue \<Rightarrow> bool" where
  "queue_ok queue \<longleftrightarrow> is_heap item_key queue \<and> (\<forall>i \<in> set queue. i = item_of (item_task i))"

section \<open>The contract the executor relies on\<close>

text \<open>
  A queue of timed tasks: what scheduling adds, what popping till a timestamp takes out and
  leaves, and what the time till the next task means. \<open>tasks\<close> lists the scheduled tasks,
  \<open>ok\<close> is the queue's invariant.
\<close>

locale timed_queue =
  fixes schedule :: "'t \<Rightarrow> 'q \<Rightarrow> py_exc option \<times> 'q"
    and pop :: "rat \<Rightarrow> 'q \<Rightarrow> 't list res \<times> 'q"
    and till_next :: "rat \<Rightarrow> 'q \<Rightarrow> rat option"
    and tasks :: "'q \<Rightarrow> 't list"
    and ok :: "'q \<Rightarrow> bool"
    and key :: "'t \<Rightarrow> task_key"
  assumes schedule_ok: "ok q \<Longrightarrow> ok (snd (schedule t q))"
    and schedule_adds: "mset (tasks (snd (schedule t q))) = add_mset t (mset (tasks q))"
    and pop_ok: "ok q \<Longrightarrow> pop ts q = (Inr due, q') \<Longrightarrow> ok q'"
    and pop_splits: "ok q \<Longrightarrow> pop ts q = (Inr due, q') \<Longrightarrow> mset (tasks q) = mset due + mset (tasks q')"
    and pop_sorted: "ok q \<Longrightarrow> pop ts q = (Inr due, q') \<Longrightarrow> sorted (map key due)"
    and pop_due: "ok q \<Longrightarrow> pop ts q = (Inr due, q') \<Longrightarrow> t \<in> set due \<Longrightarrow> key_time (key t) \<le> ts"
    and pop_rest: "ok q \<Longrightarrow> pop ts q = (Inr due, q') \<Longrightarrow> t \<in> set (tasks q') \<Longrightarrow> ts < key_time (key t)"
    and pop_raises_keeps: "ok q \<Longrightarrow> pop ts q = (Inl e, q') \<Longrightarrow> mset (tasks q') \<subseteq># mset (tasks q)"
    and till_None: "ok q \<Longrightarrow> till_next now q = None \<longleftrightarrow> tasks q = []"
    and till_least: "ok q \<Longrightarrow> till_next now q = Some d \<Longrightarrow> t \<in> set (tasks q) \<Longrightarrow> now + d \<le> key_time (key t)"
    and till_attained: "ok q \<Longrightarrow> till_next now q = Some d \<Longrightarrow> \<exists>t \<in> set (tasks q). key_time (key t) = now + d"
begin

lemma schedule_set: "set (tasks (snd (schedule t q))) = insert t (set (tasks q))"
  using schedule_adds [of t q] by (metis set_mset_add_mset_insert set_mset_mset)

lemma pop_set:
  "ok q \<Longrightarrow> pop ts q = (Inr due, q') \<Longrightarrow> set (tasks q) = set due \<union> set (tasks q')"
  using pop_splits by (metis set_mset_mset set_mset_union)

text \<open>A pop returns exactly the due tasks and keeps exactly the others.\<close>

lemma pop_exact:
  assumes "ok q" and "pop ts q = (Inr due, q')"
  shows "mset due = filter_mset (\<lambda>t. key_time (key t) \<le> ts) (mset (tasks q))"
    and "mset (tasks q') = filter_mset (\<lambda>t. ts < key_time (key t)) (mset (tasks q))"
proof -
  have d: "\<forall>t \<in># mset due. key_time (key t) \<le> ts"
    using pop_due [OF assms] by simp
  have r: "\<forall>t \<in># mset (tasks q'). ts < key_time (key t)"
    using pop_rest [OF assms] by simp
  show "mset due = filter_mset (\<lambda>t. key_time (key t) \<le> ts) (mset (tasks q))"
    using d r unfolding pop_splits [OF assms]
    by (simp add: filter_mset_all filter_mset_none not_le del: set_mset_mset)
  show "mset (tasks q') = filter_mset (\<lambda>t. ts < key_time (key t)) (mset (tasks q))"
    using d r unfolding pop_splits [OF assms]
    by (simp add: filter_mset_all filter_mset_none not_less del: set_mset_mset)
qed

text \<open>Tasks popped by successive wake-ups come out in key order across the pops.\<close>

lemma pop_pop_sorted:
  assumes q: "ok q" and p1: "pop t1 q = (Inr due1, q1)" and p2: "pop t2 q1 = (Inr due2, q2)"
  shows "sorted (map key (due1 @ due2))"
proof -
  have "key a \<le> key b" if "a \<in> set due1" "b \<in> set due2" for a b
  proof -
    have "b \<in> set (tasks q1)" using that(2) pop_set [OF pop_ok [OF q p1] p2] by simp
    then show ?thesis
      using pop_due [OF q p1 that(1)] pop_rest [OF q p1] by (fastforce simp: less_eq_task_key_def)
  qed
  then show ?thesis
    using pop_sorted [OF q p1] pop_sorted [OF pop_ok [OF q p1] p2] by (auto simp: sorted_append)
qed

lemma till_due_iff:
  assumes "ok q"
  shows "(\<exists>d. till_next now q = Some d \<and> d \<le> 0) \<longleftrightarrow> (\<exists>t \<in> set (tasks q). key_time (key t) \<le> now)"
proof (cases "till_next now q")
  case None
  with till_None [OF assms, of now] show ?thesis by simp
next
  case (Some d)
  from till_attained [OF assms Some] obtain t where t: "t \<in> set (tasks q)" "key_time (key t) = now + d"
    by blast
  have "d \<le> 0 \<longleftrightarrow> key_time (key t) \<le> now" using t(2) by linarith
  moreover have "d \<le> 0" if "u \<in> set (tasks q)" "key_time (key u) \<le> now" for u
    using till_least [OF assms Some that(1)] that(2) by linarith
  ultimately show ?thesis using Some t(1) by auto
qed

lemma pop_nonempty_iff:
  assumes "ok q" and "pop now q = (Inr due, q')"
  shows "due \<noteq> [] \<longleftrightarrow> (\<exists>d. till_next now q = Some d \<and> d \<le> 0)"
  unfolding till_due_iff [OF assms(1)]
  using pop_set [OF assms] pop_due [OF assms] pop_rest [OF assms] by (fastforce simp: neq_Nil_conv)

end

section \<open>The queue keeps the contract\<close>

lemma queue_ok_new: "queue_ok new_queue"
  by (simp add: queue_ok_def new_queue_def)

lemma schedule_task_mset:
  "mset (snd (schedule_task olt t q)) = add_mset (item_of t) (mset q)"
  by (simp add: schedule_task_def mset_heappush item_of_def)

lemma schedule_task_set: "set (snd (schedule_task olt t q)) = insert (item_of t) (set q)"
  using schedule_task_mset [of olt t q] by (metis set_mset_add_mset_insert set_mset_mset)

lemma schedule_task_ok: "queue_ok q \<Longrightarrow> queue_ok (snd (schedule_task olt t q))"
  unfolding queue_ok_def schedule_task_set
  by (auto simp: schedule_task_def intro: hq.heappush_heap)

lemma schedule_task_raises:
  assumes "fst (schedule_task olt t q) = Some e" and "queue_ok q"
  shows "\<exists>u \<in> set (get_tasks q). task_key u = task_key t"
proof -
  obtain i where i: "i \<in> set q" "item_lt olt (item_of t) i = Inl e"
    using heappush_raises_item [of "item_lt olt" q "item_of t" e] assms(1)
    by (auto simp: schedule_task_def item_of_def)
  then have "item_key i = task_key t" using hq.lt_raises [OF i(2)] by simp
  moreover have "i = item_of (item_task i)" using i(1) assms(2) by (simp add: queue_ok_def)
  ultimately have "task_key (item_task i) = task_key t" by (metis item_key_item_of)
  with i(1) show ?thesis by (auto simp: get_tasks_def)
qed

lemma queue_ok_pop:
  assumes "queue_ok q" and "heappop (item_lt olt) q = (Inr r, q')"
  shows "queue_ok q'"
proof -
  have "set q' \<subseteq> set q"
    using mset_heappop [of q "item_lt olt"] heappop_result [of "item_lt olt" q r] assms(2)
    by (metis fst_conv set_mset_add_mset_insert set_mset_mset snd_conv subset_insertI)
  then show ?thesis
    using assms hq.heappop_heap [of q olt r] by (auto simp: queue_ok_def)
qed

lemma queue_ok_head:
  assumes "queue_ok ((tm, p, k) # q)"
  shows "tm = abs_time k \<and> p = priority k \<and> (\<forall>i \<in> set ((tm, p, k) # q). task_key k \<le> item_key i)"
proof -
  have "(tm, p, k) = item_of k" using assms by (auto simp: queue_ok_def item_task_def)
  moreover have "\<forall>i \<in> set ((tm, p, k) # q). item_key (tm, p, k) \<le> item_key i"
    using assms hq.heap_root_least [of "(tm, p, k) # q"] by (simp add: queue_ok_def)
  ultimately show ?thesis by (simp add: item_of_def task_key_def)
qed

lemma pop_loop_spec:
  assumes "queue_ok q" and "pop_loop olt ts acc q = (Inr due, q')"
  shows "\<exists>new. due = acc @ new \<and> queue_ok q' \<and> mset q = mset (map item_of new) + mset q' \<and>
           sorted (map task_key new) \<and> (\<forall>t \<in> set new. abs_time t \<le> ts) \<and>
           (\<forall>i \<in> set q'. ts < key_time (item_key i))"
  using assms
proof (induction olt ts acc q rule: pop_loop.induct)
  case (1 olt ts acc q)
  show ?case
  proof (cases q)
    case Nil
    with "1.prems" show ?thesis by auto
  next
    case (Cons i rest)
    obtain tm p k where i: "i = (tm, p, k)" by (cases i) auto
    note q = Cons [unfolded i]
    have head: "tm = abs_time k" "p = priority k" "\<forall>i \<in> set q. task_key k \<le> item_key i"
      using queue_ok_head [OF "1.prems"(1) [unfolded q]] unfolding q by blast+
    show ?thesis
    proof (cases "tm \<le> ts")
      case False
      have "ts < key_time (item_key i)" if "i \<in> set q" for i
        using head(3) that False by (fastforce simp: less_eq_task_key_def task_key_def head(1))
      with False "1.prems" q show ?thesis by auto
    next
      case True
      then obtain r q1 where pop: "heappop (item_lt olt) q = (Inr r, q1)"
        and loop: "pop_loop olt ts (acc @ [k]) q1 = (Inr due, q')"
        using "1.prems"(2) q
        by (auto split: prod.splits sum.splits)
      have msq: "mset q = add_mset (item_of k) (mset q1)"
        using mset_heappop [of q "item_lt olt"] pop q head(1,2) by (simp add: item_of_def)
      have "queue_ok q1" using queue_ok_pop "1.prems"(1) pop by blast
      from "1.IH" [OF q refl refl True pop [symmetric] refl this loop] obtain new
        where new: "due = (acc @ [k]) @ new" "queue_ok q'" "mset q1 = mset (map item_of new) + mset q'"
          "sorted (map task_key new)" "\<forall>t \<in> set new. abs_time t \<le> ts"
          "\<forall>i \<in> set q'. ts < key_time (item_key i)" by auto
      have "item_of t \<in> set q" if "t \<in> set new" for t
      proof -
        have "item_of t \<in># mset q" unfolding msq new(3) using that by simp
        then show ?thesis by simp
      qed
      then have "\<forall>t \<in> set new. task_key k \<le> task_key t" using head(3) by fastforce
      with new True head(1) show ?thesis
        by (intro exI [of _ "k # new"]) (auto simp: msq)
    qed
  qed
qed

lemma pop_loop_raises:
  assumes "pop_loop olt ts acc q = (Inl e, q')"
  shows "mset q' \<subseteq># mset q \<and> raises_on (item_lt olt) (set q) e"
  using assms
proof (induction olt ts acc q rule: pop_loop.induct)
  case (1 olt ts acc q)
  show ?case
  proof (cases q)
    case (Cons i rest)
    obtain tm p k where i: "i = (tm, p, k)" by (cases i) auto
    note q = Cons [unfolded i]
    have due: "tm \<le> ts" using "1.prems" q by (cases "tm \<le> ts") auto
    have ms: "mset q = add_mset (q ! 0) (mset (snd (heappop (item_lt olt) q)))"
      using mset_heappop q by blast
    show ?thesis
    proof (cases "heappop (item_lt olt) q")
      case (Pair r q1)
      show ?thesis
      proof (cases r)
        case (Inl e')
        with Pair due "1.prems" q have "e' = e" "q1 = q'" by auto
        then show ?thesis
          using ms Pair Inl heappop_raises [of q "item_lt olt" e] q by simp
      next
        case (Inr r')
        with Pair due "1.prems" q have "pop_loop olt ts (acc @ [k]) q1 = (Inl e, q')" by auto
        from "1.IH" [OF q refl refl due Pair [symmetric] Inr this]
        have sub: "mset q' \<subseteq># mset q1" and ra: "raises_on (item_lt olt) (set q1) e" by auto
        have "mset q1 \<subseteq># mset q" using ms Pair by simp
        with sub show ?thesis
          using raises_on_mono [OF ra, of "set q"] set_mset_mono [of "mset q1" "mset q"]
          by (auto intro: subset_mset.order_trans)
      qed
    qed
  qed (use "1.prems" in simp)
qed

lemma get_tasks_mset: "mset (get_tasks q) = image_mset item_task (mset q)"
  by (simp add: get_tasks_def)

lemma get_tasks_Nil [simp]: "get_tasks q = [] \<longleftrightarrow> q = []"
  by (simp add: get_tasks_def)

lemma in_get_tasks: "queue_ok q \<Longrightarrow> t \<in> set (get_tasks q) \<longleftrightarrow> item_of t \<in> set q"
  by (force simp: get_tasks_def queue_ok_def image_iff)

lemma time_of_head:
  assumes "queue_ok ((tm, p, k) # q)" and "t \<in> set (get_tasks ((tm, p, k) # q))"
  shows "tm \<le> abs_time t"
proof -
  have "item_of t \<in> set ((tm, p, k) # q)"
    using assms(2) in_get_tasks [OF assms(1)] by blast
  with queue_ok_head [OF assms(1)] have "tm = abs_time k" and "task_key k \<le> item_key (item_of t)"
    by blast+
  then show ?thesis
    unfolding item_key_item_of less_eq_task_key_def task_key_def by auto
qed

interpretation tq: timed_queue "schedule_task olt" "pop_tasks_till_timestamp olt"
    get_time_till_next_task get_tasks queue_ok task_key
  for olt :: "'v \<Rightarrow> 'v \<Rightarrow> bool res"
proof
  fix q q' :: "('a, 'v) task_queue" and t :: "('a, 'v) task" and ts now d e due
  show "queue_ok q \<Longrightarrow> queue_ok (snd (schedule_task olt t q))"
    by (rule schedule_task_ok)
  show "mset (get_tasks (snd (schedule_task olt t q))) = add_mset t (mset (get_tasks q))"
    by (simp add: get_tasks_mset schedule_task_mset)
  {
    assume ok: "queue_ok q" and pop: "pop_tasks_till_timestamp olt ts q = (Inr due, q')"
    from pop_loop_spec [OF ok, of olt ts "[]" due q'] pop
    have due: "queue_ok q'" "mset q = mset (map item_of due) + mset q'" "sorted (map task_key due)"
      "\<forall>t \<in> set due. abs_time t \<le> ts" "\<forall>i \<in> set q'. ts < key_time (item_key i)"
      by (auto simp: pop_tasks_till_timestamp_def)
    show "queue_ok q'" and "sorted (map task_key due)" by fact+
    show "mset (get_tasks q) = mset due + mset (get_tasks q')"
      by (simp add: get_tasks_mset due(2) image_mset.compositionality comp_def)
    show "t \<in> set due \<Longrightarrow> key_time (task_key t) \<le> ts"
      using due(4) by (simp add: task_key_def)
    show "t \<in> set (get_tasks q') \<Longrightarrow> ts < key_time (task_key t)"
      using due(5) in_get_tasks [OF due(1)] by fastforce
  }
  show "mset (get_tasks q') \<subseteq># mset (get_tasks q)"
    if "pop_tasks_till_timestamp olt ts q = (Inl e, q')"
    using pop_loop_raises [of olt ts "[]" q e q'] that
    by (auto simp: get_tasks_mset pop_tasks_till_timestamp_def intro: image_mset_subseteq_mono)
  show "get_time_till_next_task now q = None \<longleftrightarrow> get_tasks q = []"
    by (simp add: get_time_till_next_task_def split: list.split)
  assume ok: "queue_ok q" and d: "get_time_till_next_task now q = Some d"
  then obtain p k rest where q: "q = (now + d, p, k) # rest"
    by (auto simp: get_time_till_next_task_def split: list.splits)
  show "t \<in> set (get_tasks q) \<Longrightarrow> now + d \<le> key_time (task_key t)"
    using time_of_head ok q by (simp add: task_key_def)
  show "\<exists>t \<in> set (get_tasks q). key_time (task_key t) = now + d"
    using queue_ok_head [of "now + d" p k rest] ok q
    by (auto simp: get_tasks_def item_task_def task_key_def)
qed

end
