(* ===== verification/Futures.thy ===== *)
theory Futures imports Prelude begin

text \<open>
  \<^verbatim>\<open>concurrent.futures.Future\<close> of the standard library, as far as the scheduler
  uses it: the states of a future and the calls that move it between them.
\<close>

datatype 'r fstate =
  PENDING | RUNNING | CANCELLED | CANCELLED_AND_NOTIFIED | FINISHED "'r res"

definition cancelled :: "'r fstate \<Rightarrow> bool" where
  "cancelled st \<longleftrightarrow> (case st of CANCELLED \<Rightarrow> True | CANCELLED_AND_NOTIFIED \<Rightarrow> True | _ \<Rightarrow> False)"

definition future_done :: "'r fstate \<Rightarrow> bool" where
  "future_done st \<longleftrightarrow>
     (case st of CANCELLED \<Rightarrow> True | CANCELLED_AND_NOTIFIED \<Rightarrow> True | FINISHED _ \<Rightarrow> True | _ \<Rightarrow> False)"

text \<open>\<^verbatim>\<open>cancel()\<close>: refused while running and when finished.\<close>

definition cancel :: "'r fstate \<Rightarrow> bool \<times> 'r fstate" where
  "cancel st =
     (case st of
        RUNNING \<Rightarrow> (False, st)
      | FINISHED _ \<Rightarrow> (False, st)
      | CANCELLED \<Rightarrow> (True, st)
      | CANCELLED_AND_NOTIFIED \<Rightarrow> (True, st)
      | PENDING \<Rightarrow> (True, CANCELLED))"

definition set_running_or_notify_cancel :: "'r fstate \<Rightarrow> bool res \<times> 'r fstate" where
  "set_running_or_notify_cancel st =
     (case st of
        CANCELLED \<Rightarrow> (Inr False, CANCELLED_AND_NOTIFIED)
      | PENDING \<Rightarrow> (Inr True, RUNNING)
      | _ \<Rightarrow> (Inl RuntimeError, st))"

text \<open>\<^verbatim>\<open>set_result\<close> and \<^verbatim>\<open>set_exception\<close>.\<close>

definition set_finished :: "'r res \<Rightarrow> 'r fstate \<Rightarrow> unit res \<times> 'r fstate" where
  "set_finished r st =
     (case st of
        PENDING \<Rightarrow> (Inr (), FINISHED r)
      | RUNNING \<Rightarrow> (Inr (), FINISHED r)
      | _ \<Rightarrow> (Inl InvalidStateError, st))"

lemmas future_defs = cancelled_def future_done_def cancel_def
  set_running_or_notify_cancel_def set_finished_def

text \<open>A cancellation stands: no call of the library undoes it.\<close>

lemma cancelled_stands:
  "cancelled st \<Longrightarrow> cancelled (snd (cancel st))"
  "cancelled st \<Longrightarrow> cancelled (snd (set_running_or_notify_cancel st))"
  "cancelled st \<Longrightarrow> cancelled (snd (set_finished r st))"
  by (auto simp: future_defs split: fstate.splits)

lemma cancel_running [simp]: "cancel RUNNING = (False, RUNNING)"
  by (simp add: cancel_def)

lemma set_running_cases:
  "set_running_or_notify_cancel st = (Inr b, st') \<Longrightarrow>
   (b \<and> st = PENDING \<and> st' = RUNNING) \<or> (\<not> b \<and> st = CANCELLED \<and> st' = CANCELLED_AND_NOTIFIED)"
  by (auto simp: set_running_or_notify_cancel_def split: fstate.splits)

end
