(* ===== verification/Locking.thy ===== *)
theory Locking imports Prelude begin

text \<open>
  \<^verbatim>\<open>with lock:\<close> blocks and the \<^verbatim>\<open>ScopedUnlocker\<close> of
  \<^verbatim>\<open>lwip_py/utility/scheduler.py\<close>, over any object with
  \<^verbatim>\<open>acquire\<close> and \<^verbatim>\<open>release\<close>. A blocking acquire is modelled where
  it returns: the lock is then held.
\<close>

text \<open>
  A context manager: \<open>enter\<close>, the body, and \<open>exit\<close> however the body ends. An
  exception of \<open>exit\<close> replaces the body's; neither manager of the program suppresses
  one.
\<close>

definition with_block :: "('s, unit) py \<Rightarrow> ('s, unit) py \<Rightarrow> ('s, 'a) py \<Rightarrow> ('s, 'a) py" where
  "with_block enter exit body =
     py_bind enter (\<lambda>_ s.
       case body s of
         (r, s1) \<Rightarrow>
           (case exit s1 of
              (Inl e, s2) \<Rightarrow> (Inl e, s2)
            | (Inr _, s2) \<Rightarrow> (r, s2)))"

text \<open>\<^verbatim>\<open>with lock:\<close> acquires on entry and releases on exit.\<close>

definition with_lock :: "('s, unit) py \<Rightarrow> ('s, unit) py \<Rightarrow> ('s, 'a) py \<Rightarrow> ('s, 'a) py" where
  "with_lock acquire release body = with_block acquire release body"

text \<open>\<^verbatim>\<open>ScopedUnlocker\<close>: the other way round.\<close>

definition scoped_unlocker :: "('s, unit) py \<Rightarrow> ('s, unit) py \<Rightarrow> ('s, 'a) py \<Rightarrow> ('s, 'a) py" where
  "scoped_unlocker acquire release body = with_block release acquire body"

text \<open>
  The synchronisation primitive that \<^verbatim>\<open>ScopedUnlocker\<close> documents: releasing a
  lock that is not held raises \<open>RuntimeError\<close>.
\<close>

locale lock_like =
  fixes acquire :: "('s, unit) py" and release :: "('s, unit) py" and held :: "'s \<Rightarrow> bool"
  assumes acquire_takes: "\<exists>s'. acquire s = (Inr (), s') \<and> held s'"
    and release_frees: "held s \<Longrightarrow> \<exists>s'. release s = (Inr (), s') \<and> \<not> held s'"
    and release_unheld: "\<not> held s \<Longrightarrow> release s = (Inl RuntimeError, s)"
begin

lemma scoped_unlocker_body_free:
  assumes "held s"
  obtains s0 where "release s = (Inr (), s0)" and "\<not> held s0"
    and "\<And>(body :: ('s, 'a) py) r s1. body s0 = (r, s1) \<Longrightarrow>
      \<exists>s2. scoped_unlocker acquire release body s = (r, s2) \<and> acquire s1 = (Inr (), s2) \<and> held s2"
proof -
  obtain s0 where s0: "release s = (Inr (), s0)" "\<not> held s0"
    using release_frees [OF assms] by blast
  have "\<exists>s2. scoped_unlocker acquire release body s = (r, s2) \<and> acquire s1 = (Inr (), s2) \<and> held s2"
    if "body s0 = (r, s1)" for body :: "('s, 'a) py" and r s1
    using acquire_takes [of s1] s0 that
    by (auto simp: scoped_unlocker_def with_block_def py_bind_def)
  with s0 show ?thesis by (rule that)
qed

lemma scoped_unlocker_held:
  "held s \<Longrightarrow> held (snd (scoped_unlocker acquire release body s))"
  using scoped_unlocker_body_free [of s] by (metis prod.collapse snd_conv)

lemma scoped_unlocker_unheld:
  "\<not> held s \<Longrightarrow> scoped_unlocker acquire release body s = (Inl RuntimeError, s)"
  by (simp add: scoped_unlocker_def with_block_def py_bind_def release_unheld)

lemma with_lock_frees:
  assumes "\<And>s. held s \<Longrightarrow> held (snd (body s))"
  shows "\<exists>s0 r s1 s2. acquire s = (Inr (), s0) \<and> held s0 \<and> body s0 = (r, s1) \<and>
    with_lock acquire release body s = (r, s2) \<and> \<not> held s2"
proof -
  obtain s0 where s0: "acquire s = (Inr (), s0)" "held s0" using acquire_takes by blast
  obtain r s1 where b: "body s0 = (r, s1)" by (cases "body s0")
  then have "held s1" using assms [OF s0(2)] by simp
  then obtain s2 where "release s1 = (Inr (), s2)" "\<not> held s2" using release_frees by blast
  with s0 b show ?thesis
    by (auto simp: with_lock_def with_block_def py_bind_def)
qed

end

end
