(* ===== verification/Executor.thy ===== *)
theory Executor imports TaskQueue Futures Locking begin

text \<open>
  The operations of \<^verbatim>\<open>SingleThreadExecutor\<close> of
  \<^verbatim>\<open>lwip_py/utility/scheduler.py\<close>, each as one function on the executor's state.
  Futures are named by numbers and live in the state, because clients hold on to them.
  The clock is an argument of each operation that reads it. What the worker thread and
  its clients do between the operations is the step relation of the theory
  ExecutorSteps.
\<close>

section \<open>State\<close>

datatype statuses = Running | Stopped | StoppedSync

record ('a, 'v, 'r) executor =
  tasks :: "('a, 'v) task_queue"
  status :: statuses
  tasks_to_finish :: int
  locked :: bool
  futures :: "nat \<Rightarrow> 'r fstate"
  next_future :: nat

definition new_executor :: "('a, 'v, 'r) executor" where
  "new_executor = \<lparr>tasks = new_queue, status = Stopped, tasks_to_finish = 0, locked = False,
     futures = (\<lambda>_. PENDING), next_future = 0\<rparr>"

text \<open>The condition's lock.\<close>

definition cond_acquire :: "(('a, 'v, 'r) executor, unit) py" where
  "cond_acquire s = (Inr (), s\<lparr>locked := True\<rparr>)"

definition cond_release :: "(('a, 'v, 'r) executor, unit) py" where
  "cond_release s = (if locked s then (Inr (), s\<lparr>locked := False\<rparr>) else (Inl RuntimeError, s))"

interpretation condition: lock_like cond_acquire cond_release locked
  by unfold_locales (auto simp: cond_acquire_def cond_release_def)

section \<open>Operations of the clients\<close>

definition task_cancelled :: "('a, 'v, 'r) executor \<Rightarrow> ('a, 'v) task \<Rightarrow> bool" where
  "task_cancelled s t \<longleftrightarrow> cancelled (futures s (future t))"

text \<open>\<^verbatim>\<open>stop\<close>: counts the queued tasks that are not cancelled.\<close>

definition stop_body :: "bool \<Rightarrow> (('a, 'v, 'r) executor, unit) py" where
  "stop_body sync s =
     (let s = s\<lparr>tasks_to_finish :=
                  int (length (filter (\<lambda>t. \<not> task_cancelled s t) (get_tasks (tasks s))))\<rparr>
      in (Inr (), s\<lparr>status := if sync \<and> tasks_to_finish s \<noteq> 0 then StoppedSync else Stopped\<rparr>))"

definition stop :: "bool \<Rightarrow> (('a, 'v, 'r) executor, unit) py" where
  "stop sync = with_lock cond_acquire cond_release (stop_body sync)"

text \<open>
  \<^verbatim>\<open>schedule_delayed\<close>: the new future is the result. When the comparison of two
  tasks raises, the task is already in the queue.
\<close>

definition schedule_body ::
  "('v \<Rightarrow> 'v \<Rightarrow> bool res) \<Rightarrow> rat \<Rightarrow> rat \<Rightarrow> int \<Rightarrow> 'a \<Rightarrow> 'v list \<Rightarrow> (string \<times> 'v) list \<Rightarrow>
   (('a, 'v, 'r) executor, nat) py" where
  "schedule_body olt time delay prio act arguments kwarguments s =
     (if status s \<in> {Stopped, StoppedSync} then (Inl Stopped_exc, s)
      else
        let fut = next_future s;
            s = s\<lparr>futures := (futures s)(fut := PENDING), next_future := Suc fut\<rparr>;
            task = \<lparr>abs_time = time + delay, priority = prio, action = act,
                    args = arguments, kwargs = kwarguments, future = fut\<rparr>
        in case schedule_task olt task (tasks s) of
             (Some e, q) \<Rightarrow> (Inl e, s\<lparr>tasks := q\<rparr>)
           | (None, q) \<Rightarrow> (Inr fut, s\<lparr>tasks := q\<rparr>))"

definition schedule_delayed ::
  "('v \<Rightarrow> 'v \<Rightarrow> bool res) \<Rightarrow> rat \<Rightarrow> rat \<Rightarrow> int \<Rightarrow> 'a \<Rightarrow> 'v list \<Rightarrow> (string \<times> 'v) list \<Rightarrow>
   (('a, 'v, 'r) executor, nat) py" where
  "schedule_delayed olt time delay prio act arguments kwarguments =
     with_lock cond_acquire cond_release
       (schedule_body olt time delay prio act arguments kwarguments)"

text \<open>A client cancels a future it holds (\<^verbatim>\<open>future.cancel()\<close>).\<close>

definition cancel_future :: "nat \<Rightarrow> ('a, 'v, 'r) executor \<Rightarrow> bool \<times> ('a, 'v, 'r) executor" where
  "cancel_future f s =
     (let (b, st) = cancel (futures s f) in (b, s\<lparr>futures := (futures s)(f := st)\<rparr>))"

section \<open>Operations of the worker\<close>

text \<open>The first block of \<^verbatim>\<open>run\<close>.\<close>

definition run_prologue :: "('a, 'v, 'r) executor \<Rightarrow> ('a, 'v, 'r) executor" where
  "run_prologue s = s\<lparr>tasks_to_finish := 0, status := Running\<rparr>"

text \<open>
  One turn of the loop in \<^verbatim>\<open>_wait_for_task_to_process\<close>: it returns, or waits on
  the condition with a timeout.
\<close>

datatype wait_outcome = Return bool | Block "rat option"

definition wait_turn :: "rat \<Rightarrow> ('a, 'v, 'r) executor \<Rightarrow> wait_outcome \<times> ('a, 'v, 'r) executor" where
  "wait_turn time s =
     (if status s = Stopped then (Return False, s)
      else
        let should_stop =
              (empty (tasks s) \<or> tasks_to_finish s = 0) \<and> status s = StoppedSync
        in if should_stop then (Return False, s\<lparr>status := Stopped\<rparr>)
           else
             let delay = get_time_till_next_task time (tasks s)
             in case delay of
                  Some d \<Rightarrow> if d \<le> 0 then (Return True, s) else (Block delay, s)
                | None \<Rightarrow> (Block delay, s))"

text \<open>The first statement of \<^verbatim>\<open>_process_expired_tasks\<close>.\<close>

definition pop_expired ::
  "('v \<Rightarrow> 'v \<Rightarrow> bool res) \<Rightarrow> rat \<Rightarrow> (('a, 'v, 'r) executor, ('a, 'v) task list) py" where
  "pop_expired olt time s =
     (let (r, q) = pop_tasks_till_timestamp olt time (tasks s) in (r, s\<lparr>tasks := q\<rparr>))"

text \<open>
  \<^verbatim>\<open>_process_task\<close> up to the action, and from its end. The action returns,
  raises an \<^verbatim>\<open>Exception\<close>, or raises something that is not one
  (\<^verbatim>\<open>KeyboardInterrupt\<close>), which passes the handler but not the
  \<^verbatim>\<open>finally\<close> clause.
\<close>

datatype 'r outcome = Returns 'r | Raises py_exc | RaisesBase py_exc

definition begin_task :: "('a, 'v) task \<Rightarrow> (('a, 'v, 'r) executor, bool) py" where
  "begin_task task s =
     (let (r, st) = set_running_or_notify_cancel (futures s (future task));
          s = s\<lparr>futures := (futures s)(future task := st)\<rparr>
      in case r of
           Inl e \<Rightarrow> (Inl e, s)
         | Inr _ \<Rightarrow> (Inr (\<not> cancelled (futures s (future task))), s))"

definition set_future :: "nat \<Rightarrow> 'r res \<Rightarrow> (('a, 'v, 'r) executor, unit) py" where
  "set_future f v s =
     (let (r, st) = set_finished v (futures s f) in (r, s\<lparr>futures := (futures s)(f := st)\<rparr>))"

text \<open>The \<^verbatim>\<open>else\<close> and \<^verbatim>\<open>except\<close> clauses, the \<^verbatim>\<open>finally\<close> clause, and both in sequence.\<close>

definition finish_task :: "('a, 'v) task \<Rightarrow> 'r outcome \<Rightarrow> (('a, 'v, 'r) executor, unit) py" where
  "finish_task task out s =
     (case out of
        Returns v \<Rightarrow> set_future (future task) (Inr v) s
      | Raises e \<Rightarrow> set_future (future task) (Inl e) s
      | RaisesBase e \<Rightarrow> (Inl e, s))"

definition count_down :: "('a, 'v, 'r) executor \<Rightarrow> ('a, 'v, 'r) executor" where
  "count_down s = (if status s = StoppedSync then s\<lparr>tasks_to_finish := tasks_to_finish s - 1\<rparr> else s)"

definition end_task :: "('a, 'v) task \<Rightarrow> 'r outcome \<Rightarrow> (('a, 'v, 'r) executor, unit) py" where
  "end_task task out s = (let (r, s) = finish_task task out s in (r, count_down s))"

definition process_task ::
  "(('a, 'v) task \<Rightarrow> ('a, 'v, 'r) executor \<Rightarrow> 'r outcome \<times> ('a, 'v, 'r) executor) \<Rightarrow>
   ('a, 'v) task \<Rightarrow> (('a, 'v, 'r) executor, unit) py" where
  "process_task run_action task =
     py_bind (begin_task task) (\<lambda>not_cancelled s.
       if not_cancelled then (let (out, s) = run_action task s in end_task task out s)
       else (Inr (), s))"

definition process_expired_tasks ::
  "('v \<Rightarrow> 'v \<Rightarrow> bool res) \<Rightarrow>
   (('a, 'v) task \<Rightarrow> ('a, 'v, 'r) executor \<Rightarrow> 'r outcome \<times> ('a, 'v, 'r) executor) \<Rightarrow>
   rat \<Rightarrow> (('a, 'v, 'r) executor, unit) py" where
  "process_expired_tasks olt run_action time =
     py_bind (pop_expired olt time) (\<lambda>expired_tasks.
       scoped_unlocker cond_acquire cond_release (py_for expired_tasks (process_task run_action)))"

section \<open>Behaviour of the operations\<close>

named_theorems executor_defs \<open>the operations' definitions, unfolded to the state\<close>

declare with_lock_def [executor_defs] with_block_def [executor_defs] py_bind_def [executor_defs]
  cond_acquire_def [executor_defs] cond_release_def [executor_defs]

lemma with_cond_lock:
  assumes "locked (snd (body (s\<lparr>locked := True\<rparr>)))"
  shows "with_lock cond_acquire cond_release body s =
     (let (r, s') = body (s\<lparr>locked := True\<rparr>) in (r, s'\<lparr>locked := False\<rparr>))"
  using assms by (cases "body (s\<lparr>locked := True\<rparr>)") (simp add: executor_defs)

lemma stop_body_locked [simp]: "locked (snd (stop_body sync s)) = locked s"
  by (simp add: stop_body_def)

lemma schedule_body_locked [simp]:
  "locked (snd (schedule_body olt time delay prio act arguments kws s)) = locked s"
  by (simp add: schedule_body_def Let_def split: prod.split option.split)

definition live_tasks :: "('a, 'v, 'r) executor \<Rightarrow> ('a, 'v) task list" where
  "live_tasks s = filter (\<lambda>t. \<not> task_cancelled s t) (get_tasks (tasks s))"

lemma unlocked_update [simp]: "\<not> locked s \<Longrightarrow> s\<lparr>locked := False\<rparr> = s"
  by simp

lemma stop_eq:
  "\<not> locked s \<Longrightarrow> stop sync s =
     (Inr (), s\<lparr>tasks_to_finish := int (length (live_tasks s)),
               status := if sync \<and> live_tasks s \<noteq> [] then StoppedSync else Stopped\<rparr>)"
  by (simp add: stop_def with_cond_lock stop_body_def live_tasks_def task_cancelled_def)

lemma schedule_when_stopped:
  "\<not> locked s \<Longrightarrow> status s \<noteq> Running \<Longrightarrow>
   schedule_delayed olt time delay prio act arguments kws s = (Inl Stopped_exc, s)"
  by (cases "status s") (simp_all add: schedule_delayed_def with_cond_lock schedule_body_def)

definition new_task :: "rat \<Rightarrow> rat \<Rightarrow> int \<Rightarrow> 'a \<Rightarrow> 'v list \<Rightarrow> (string \<times> 'v) list \<Rightarrow> nat \<Rightarrow> ('a, 'v) task" where
  "new_task time delay prio act arguments kws fut =
     \<lparr>abs_time = time + delay, priority = prio, action = act, args = arguments, kwargs = kws, future = fut\<rparr>"

lemma new_task_simps [simp]:
  "abs_time (new_task time delay prio act arguments kws fut) = time + delay"
  "future (new_task time delay prio act arguments kws fut) = fut"
  by (simp_all add: new_task_def)

lemma schedule_when_running:
  "\<not> locked s \<Longrightarrow> status s = Running \<Longrightarrow>
   schedule_delayed olt time delay prio act arguments kws s =
     (let fut = next_future s;
          (err, q) = schedule_task olt (new_task time delay prio act arguments kws fut) (tasks s)
      in (case err of Some e \<Rightarrow> Inl e | None \<Rightarrow> Inr fut,
          s\<lparr>tasks := q, futures := (futures s)(fut := PENDING), next_future := Suc fut\<rparr>))"
  by (simp add: schedule_delayed_def with_cond_lock schedule_body_def new_task_def Let_def
      split: prod.split option.split)

text \<open>What one call of \<^verbatim>\<open>_process_task\<close> does.\<close>

lemma begin_task_cases:
  "begin_task t s = (Inr b, s') \<Longrightarrow>
   (b \<and> futures s (future t) = PENDING \<and> s' = s\<lparr>futures := (futures s)(future t := RUNNING)\<rparr>) \<or>
   (\<not> b \<and> futures s (future t) = CANCELLED \<and>
      s' = s\<lparr>futures := (futures s)(future t := CANCELLED_AND_NOTIFIED)\<rparr>)"
  by (cases "futures s (future t)")
    (auto simp: begin_task_def set_running_or_notify_cancel_def cancelled_def)

lemma begin_task_pending:
  "futures s (future t) = PENDING \<Longrightarrow>
   begin_task t s = (Inr True, s\<lparr>futures := (futures s)(future t := RUNNING)\<rparr>)"
  by (simp add: begin_task_def set_running_or_notify_cancel_def cancelled_def)

lemma begin_task_cancelled:
  "futures s (future t) = CANCELLED \<Longrightarrow>
   begin_task t s = (Inr False, s\<lparr>futures := (futures s)(future t := CANCELLED_AND_NOTIFIED)\<rparr>)"
  by (simp add: begin_task_def set_running_or_notify_cancel_def cancelled_def)

definition outcome_value :: "'r outcome \<Rightarrow> 'r res" where
  "outcome_value out = (case out of Returns v \<Rightarrow> Inr v | Raises e \<Rightarrow> Inl e | RaisesBase e \<Rightarrow> Inl e)"

lemma finish_task_running:
  assumes "futures s (future t) = RUNNING"
  shows "finish_task t out s =
    (case out of RaisesBase e \<Rightarrow> Inl e | _ \<Rightarrow> Inr (),
     s\<lparr>futures := (case out of RaisesBase e \<Rightarrow> futures s
                   | _ \<Rightarrow> (futures s)(future t := FINISHED (outcome_value out)))\<rparr>)"
  using assms
  by (cases out) (simp_all add: finish_task_def set_future_def set_finished_def outcome_value_def)

lemma end_task_running:
  assumes "futures s (future t) = RUNNING"
  shows "end_task t out s =
    (case out of RaisesBase e \<Rightarrow> Inl e | _ \<Rightarrow> Inr (),
     s\<lparr>futures := (case out of RaisesBase e \<Rightarrow> futures s
                   | _ \<Rightarrow> (futures s)(future t := FINISHED (outcome_value out))),
       tasks_to_finish := tasks_to_finish s - (if status s = StoppedSync then 1 else 0)\<rparr>)"
  using assms
  by (cases out) (simp_all add: end_task_def finish_task_running count_down_def)

text \<open>A future that no later call of the executor changes.\<close>

definition settled :: "'r fstate \<Rightarrow> bool" where
  "settled st \<longleftrightarrow> (case st of FINISHED _ \<Rightarrow> True | CANCELLED_AND_NOTIFIED \<Rightarrow> True | _ \<Rightarrow> False)"

definition waiting :: "'r fstate \<Rightarrow> bool" where
  "waiting st \<longleftrightarrow> (case st of PENDING \<Rightarrow> True | CANCELLED \<Rightarrow> True | _ \<Rightarrow> False)"

lemma settled_simps [simp]:
  "settled (FINISHED v)" "settled CANCELLED_AND_NOTIFIED"
  "\<not> settled PENDING" "\<not> settled RUNNING" "\<not> settled CANCELLED"
  by (simp_all add: settled_def)

text \<open>
  What an action may do to the executor: anything through its interface. It returns or
  raises an \<^verbatim>\<open>Exception\<close>, leaves its own future running, and the waiting
  futures waiting (perhaps cancelled) and the settled ones as they are.
\<close>

definition action_ok ::
  "(('a, 'v) task \<Rightarrow> ('a, 'v, 'r) executor \<Rightarrow> 'r outcome \<times> ('a, 'v, 'r) executor) \<Rightarrow> bool" where
  "action_ok run_action \<longleftrightarrow>
     (\<forall>t s out s'. run_action t s = (out, s') \<longrightarrow>
        (\<forall>e. out \<noteq> RaisesBase e) \<and>
        (\<forall>f. (futures s f = RUNNING \<longrightarrow> futures s' f = RUNNING) \<and>
             (waiting (futures s f) \<longrightarrow> waiting (futures s' f)) \<and>
             (settled (futures s f) \<longrightarrow> futures s' f = futures s f)))"

lemma process_task_settles:
  assumes ok: "action_ok run_action" and w: "waiting (futures s (future t))"
  obtains s' where "process_task run_action t s = (Inr (), s')"
    and "settled (futures s' (future t))"
    and "\<And>f. f \<noteq> future t \<Longrightarrow> waiting (futures s f) \<Longrightarrow> waiting (futures s' f)"
    and "\<And>f. settled (futures s f) \<Longrightarrow> futures s' f = futures s f"
proof (cases "futures s (future t)")
  case CANCELLED
  let ?s = "s\<lparr>futures := (futures s)(future t := CANCELLED_AND_NOTIFIED)\<rparr>"
  show ?thesis
  proof (rule that [of ?s])
    show "process_task run_action t s = (Inr (), ?s)"
      by (simp add: process_task_def py_bind_def begin_task_cancelled [OF CANCELLED])
    show "futures ?s f = futures s f" if "settled (futures s f)" for f
      using that CANCELLED by (cases "f = future t") (simp_all add: settled_def)
  qed (simp_all add: settled_def)
next
  case PENDING
  let ?s = "s\<lparr>futures := (futures s)(future t := RUNNING)\<rparr>"
  obtain out s1 where run: "run_action t ?s = (out, s1)" by (cases "run_action t ?s")
  have s1: "out \<noteq> RaisesBase e" "futures s1 (future t) = RUNNING"
    "waiting (futures ?s f) \<Longrightarrow> waiting (futures s1 f)"
    "settled (futures ?s f) \<Longrightarrow> futures s1 f = futures ?s f" for e f
    using ok [unfolded action_ok_def, rule_format, OF run] by auto
  have proc: "process_task run_action t s = end_task t out s1"
    by (simp add: process_task_def py_bind_def begin_task_pending [OF PENDING] run)
  have ended: "end_task t out s1 = (Inr (), snd (end_task t out s1))"
      "futures (snd (end_task t out s1)) = (futures s1)(future t := FINISHED (outcome_value out))"
    using s1(1) by (simp_all add: end_task_running [OF s1(2)] split: outcome.split)
  show ?thesis
  proof (rule that [of "snd (end_task t out s1)"])
    show "process_task run_action t s = (Inr (), snd (end_task t out s1))"
      using proc ended(1) by simp
    show "settled (futures (snd (end_task t out s1)) (future t))"
      by (simp add: ended(2) settled_def)
    show "waiting (futures (snd (end_task t out s1)) f)" if "f \<noteq> future t" "waiting (futures s f)" for f
      using that s1(3) [of f] by (simp add: ended(2))
    show "futures (snd (end_task t out s1)) f = futures s f" if "settled (futures s f)" for f
      using that s1(4) [of f] PENDING by (cases "f = future t") (simp_all add: ended(2) settled_def)
  qed
qed (use w in \<open>simp_all add: waiting_def\<close>)

text \<open>
  A batch: every task's future is settled at the end, whatever the actions raise, and a
  settled future is never touched again.
\<close>

lemma batch_settles:
  assumes "action_ok run_action" and "distinct (map future ts)"
    and "\<forall>t \<in> set ts. waiting (futures s (future t))"
  shows "\<exists>s'. py_for ts (process_task run_action) s = (Inr (), s') \<and>
    (\<forall>t \<in> set ts. settled (futures s' (future t))) \<and>
    (\<forall>f. settled (futures s f) \<longrightarrow> futures s' f = futures s f)"
  using assms
proof (induction ts arbitrary: s)
  case Nil
  then show ?case by (simp add: py_return_def)
next
  case (Cons t ts)
  have w: "waiting (futures s (future t))" using Cons.prems(3) by simp
  obtain s1 where s1: "process_task run_action t s = (Inr (), s1)" "settled (futures s1 (future t))"
    "\<And>f. f \<noteq> future t \<Longrightarrow> waiting (futures s f) \<Longrightarrow> waiting (futures s1 f)"
    "\<And>f. settled (futures s f) \<Longrightarrow> futures s1 f = futures s f"
    using process_task_settles [OF Cons.prems(1) w] by metis
  have "\<forall>u \<in> set ts. waiting (futures s1 (future u))"
    using Cons.prems(2,3) s1(3) by (auto simp: image_iff)
  with Cons.IH [of s1] Cons.prems obtain s2 where s2:
    "py_for ts (process_task run_action) s1 = (Inr (), s2)"
    "\<forall>t \<in> set ts. settled (futures s2 (future t))"
    "\<forall>f. settled (futures s1 f) \<longrightarrow> futures s2 f = futures s1 f" by auto
  show ?case
    using s1 s2 by (intro exI [of _ s2]) (auto simp: py_bind_def)
qed

lemma process_expired_settles:
  assumes ok: "action_ok run_action" and q: "queue_ok (tasks s)" and l: "locked s"
    and dis: "distinct (map future (get_tasks (tasks s)))"
    and w: "\<forall>t \<in> set (get_tasks (tasks s)). waiting (futures s (future t))"
    and pop: "pop_tasks_till_timestamp olt time (tasks s) = (Inr due, rest)"
  shows "\<exists>s'. process_expired_tasks olt run_action time s = (Inr (), s') \<and> locked s' \<and>
    (\<forall>t \<in> set (get_tasks (tasks s)). abs_time t \<le> time \<longrightarrow> settled (futures s' (future t)))"
proof -
  let ?s = "s\<lparr>tasks := rest\<rparr>"
  let ?s0 = "?s\<lparr>locked := False\<rparr>"
  have ms: "mset (get_tasks (tasks s)) = mset due + mset (get_tasks rest)"
    using tq.pop_splits [OF q pop] .
  have set_due: "set due = {t \<in> set (get_tasks (tasks s)). abs_time t \<le> time}"
    using tq.pop_exact(1) [OF q pop] by (metis (no_types, lifting) set_mset_filter set_mset_mset
        task_key_def task_key.sel(1) Collect_cong)
  have "distinct (map future due)"
    using dis ms by (metis (no_types, lifting) distinct_append map_append mset_append mset_eq_imp_distinct_iff mset_map)
  then obtain s1 where s1: "py_for due (process_task run_action) ?s0 = (Inr (), s1)"
    "\<forall>t \<in> set due. settled (futures s1 (future t))"
    using batch_settles [OF ok, of due ?s0] w set_due by auto
  show ?thesis
    using s1 l set_due
    by (intro exI [of _ "s1\<lparr>locked := True\<rparr>"])
      (simp add: process_expired_tasks_def pop_expired_def pop scoped_unlocker_def executor_defs)
qed

end
