(* ===== verification/ExecutorSteps.thy ===== *)
theory ExecutorSteps imports Executor begin

text \<open>
  The executor as its worker thread and its clients run it: a step relation. A step is a
  stretch of the source between two points where another thread may come in, that is a
  block under the condition's lock, one wait, or one part of
  \<^verbatim>\<open>_process_task\<close>, which runs without the lock. \<open>SingleThreadExecutor.run\<close>
  is the worker; \<open>schedule_delayed\<close>, \<open>stop\<close> and \<open>cancel\<close> may come at any time from
  other threads, or from the action that is being executed.
\<close>

section \<open>The system\<close>

text \<open>
  Where the worker is: before \<^verbatim>\<open>Thread.start\<close>, at the first block of
  \<^verbatim>\<open>run\<close>, at the check of \<^verbatim>\<open>_wait_for_task_to_process\<close>, in
  \<^verbatim>\<open>condition.wait\<close> (with its deadline and whether it was notified), in the loop
  over the expired tasks, in an action, in the \<^verbatim>\<open>finally\<close> clause after it (with the
  exception under way), returned, or ended by an exception.
\<close>

datatype ('a, 'v) worker =
    NotStarted
  | Starting
  | Checking
  | Sleeping "rat option" bool
  | Batch "('a, 'v) task list"
  | Executing "('a, 'v) task" "('a, 'v) task list"
  | Ending "('a, 'v) task" "py_exc option" "('a, 'v) task list"
  | Finished
  | Crashed py_exc

record ('a, 'v, 'r) sys =
  ex :: "('a, 'v, 'r) executor"
  worker :: "('a, 'v) worker"
  now :: rat
  begun :: "(('a, 'v) task \<times> rat) list"  \<comment> \<open>history: the actions begun, and when\<close>

definition init_sys :: "rat \<Rightarrow> ('a, 'v, 'r) sys" where
  "init_sys t0 = \<lparr>ex = new_executor, worker = NotStarted, now = t0, begun = []\<rparr>"

text \<open>\<^verbatim>\<open>condition.notify()\<close>.\<close>

fun notify :: "('a, 'v) worker \<Rightarrow> ('a, 'v) worker" where
  "notify (Sleeping deadline _) = Sleeping deadline True"
| "notify w = w"

datatype label =
    Tick | StartThread | EnterRun | CheckStop | CheckBlock | CheckDue | CheckCrash | Wake
  | BatchEnd | SkipTask | BeginTask | BeginCrash | EndTask | CountDown | EndCrash
  | Schedule | Stop bool | Cancel

section \<open>The steps\<close>

inductive sched_step ::
  "('v \<Rightarrow> 'v \<Rightarrow> bool res) \<Rightarrow> ('a, 'v, 'r) sys \<Rightarrow> label \<Rightarrow> ('a, 'v, 'r) sys \<Rightarrow> bool"
  for olt :: "'v \<Rightarrow> 'v \<Rightarrow> bool res" where
  tick: "now s \<le> t \<Longrightarrow> sched_step olt s Tick (s\<lparr>now := t\<rparr>)"
| start_thread: "worker s = NotStarted \<Longrightarrow> sched_step olt s StartThread (s\<lparr>worker := Starting\<rparr>)"
| enter_run: "worker s = Starting \<Longrightarrow>
    sched_step olt s EnterRun (s\<lparr>ex := run_prologue (ex s), worker := Checking\<rparr>)"
| check_stop: "worker s = Checking \<Longrightarrow> wait_turn (now s) (ex s) = (Return False, x) \<Longrightarrow>
    sched_step olt s CheckStop (s\<lparr>ex := x, worker := Finished\<rparr>)"
| check_block: "worker s = Checking \<Longrightarrow> wait_turn (now s) (ex s) = (Block delay, x) \<Longrightarrow>
    sched_step olt s CheckBlock
      (s\<lparr>ex := x, worker := Sleeping (map_option (\<lambda>d. now s + d) delay) False\<rparr>)"
| check_due: "worker s = Checking \<Longrightarrow> wait_turn (now s) (ex s) = (Return True, x) \<Longrightarrow>
    now s \<le> t \<Longrightarrow> pop_expired olt t x = (Inr due, y) \<Longrightarrow>
    sched_step olt s CheckDue (s\<lparr>ex := y, worker := Batch due, now := t\<rparr>)"
| check_crash: "worker s = Checking \<Longrightarrow> wait_turn (now s) (ex s) = (Return True, x) \<Longrightarrow>
    now s \<le> t \<Longrightarrow> pop_expired olt t x = (Inl e, y) \<Longrightarrow>
    sched_step olt s CheckCrash (s\<lparr>ex := y, worker := Crashed e, now := t\<rparr>)"
| wake: "worker s = Sleeping deadline notified \<Longrightarrow>
    notified \<or> (\<exists>d. deadline = Some d \<and> d \<le> now s) \<Longrightarrow>
    sched_step olt s Wake (s\<lparr>worker := Checking\<rparr>)"
| batch_end: "worker s = Batch [] \<Longrightarrow> sched_step olt s BatchEnd (s\<lparr>worker := Checking\<rparr>)"
| skip_task: "worker s = Batch (t # ts) \<Longrightarrow> begin_task t (ex s) = (Inr False, x) \<Longrightarrow>
    sched_step olt s SkipTask (s\<lparr>ex := x, worker := Batch ts\<rparr>)"
| begin_action: "worker s = Batch (t # ts) \<Longrightarrow> begin_task t (ex s) = (Inr True, x) \<Longrightarrow>
    sched_step olt s BeginTask
      (s\<lparr>ex := x, worker := Executing t ts, begun := begun s @ [(t, now s)]\<rparr>)"
| begin_crash: "worker s = Batch (t # ts) \<Longrightarrow> begin_task t (ex s) = (Inl e, x) \<Longrightarrow>
    sched_step olt s BeginCrash (s\<lparr>ex := x, worker := Crashed e\<rparr>)"
| end_action: "worker s = Executing t ts \<Longrightarrow> finish_task t out (ex s) = (r, x) \<Longrightarrow>
    sched_step olt s EndTask
      (s\<lparr>ex := x, worker := Ending t (case r of Inl e \<Rightarrow> Some e | Inr _ \<Rightarrow> None) ts\<rparr>)"
| count: "worker s = Ending t None ts \<Longrightarrow>
    sched_step olt s CountDown (s\<lparr>ex := count_down (ex s), worker := Batch ts\<rparr>)"
| end_crash: "worker s = Ending t (Some e) ts \<Longrightarrow>
    sched_step olt s EndCrash (s\<lparr>ex := count_down (ex s), worker := Crashed e\<rparr>)"
| schedule: "schedule_delayed olt (now s) delay prio act arguments kws (ex s) = (r, x) \<Longrightarrow>
    sched_step olt s Schedule
      (s\<lparr>ex := x, worker := (case r of Inl e \<Rightarrow> worker s | Inr f \<Rightarrow> notify (worker s))\<rparr>)"
| stop_call: "stop sync (ex s) = (r, x) \<Longrightarrow>
    sched_step olt s (Stop sync) (s\<lparr>ex := x, worker := notify (worker s)\<rparr>)"
| cancel_call: "f < next_future (ex s) \<Longrightarrow> cancel_future f (ex s) = (b, x) \<Longrightarrow>
    sched_step olt s Cancel (s\<lparr>ex := x\<rparr>)"

inductive sched_steps ::
  "('v \<Rightarrow> 'v \<Rightarrow> bool res) \<Rightarrow> ('a, 'v, 'r) sys \<Rightarrow> label list \<Rightarrow> ('a, 'v, 'r) sys \<Rightarrow> bool"
  for olt :: "'v \<Rightarrow> 'v \<Rightarrow> bool res" where
  steps_Nil: "sched_steps olt s [] s"
| steps_snoc: "sched_steps olt s ls s' \<Longrightarrow> sched_step olt s' l s'' \<Longrightarrow> sched_steps olt s (ls @ [l]) s''"

definition reachable :: "('v \<Rightarrow> 'v \<Rightarrow> bool res) \<Rightarrow> ('a, 'v, 'r) sys \<Rightarrow> bool" where
  "reachable olt s \<longleftrightarrow> (\<exists>t0 ls. sched_steps olt (init_sys t0) ls s)"

inductive_simps step_Stop_simp: "sched_step olt s (Stop sync) s'"
inductive_simps step_Wake_simp: "sched_step olt s Wake s'"
inductive_cases step_CheckStopE: "sched_step olt s CheckStop s'"
inductive_cases step_BeginTaskE: "sched_step olt s BeginTask s'"

lemma reachable_init: "reachable olt (init_sys t0)"
  unfolding reachable_def by (blast intro: steps_Nil)

lemma reachable_step: "reachable olt s \<Longrightarrow> sched_step olt s l s' \<Longrightarrow> reachable olt s'"
  unfolding reachable_def by (blast intro: steps_snoc)

lemma reachable_steps: "sched_steps olt s ls s' \<Longrightarrow> reachable olt s \<Longrightarrow> reachable olt s'"
  by (induction rule: sched_steps.induct) (blast intro: reachable_step)+

lemma reachable_induct [consumes 1, case_names init step]:
  assumes "reachable olt s"
    and "\<And>t0. P (init_sys t0)"
    and "\<And>s l s'. reachable olt s \<Longrightarrow> P s \<Longrightarrow> sched_step olt s l s' \<Longrightarrow> P s'"
  shows "P s"
proof -
  from assms(1) obtain t0 ls where "sched_steps olt (init_sys t0) ls s"
    by (auto simp: reachable_def)
  then have "reachable olt s \<and> P s"
  proof (induction "init_sys t0 :: ('b, 'a, 'c) sys" ls s rule: sched_steps.induct)
    case steps_Nil
    show ?case using reachable_init assms(2) by blast
  next
    case (steps_snoc ls s' l s'')
    then show ?case using reachable_step assms(3) by blast
  qed
  then show ?thesis ..
qed

end
