(* ===== verification/ExecutorInvariants.thy ===== *)
theory ExecutorInvariants imports ExecutorSteps begin

text \<open>
  What holds in every reachable state of the executor: the shape of the queue, which
  futures are where, what the worker holds, and the history of begun actions. One lemma
  per operation keeps the invariant; the step relation's cases combine them.
\<close>

section \<open>The invariant\<close>

text \<open>The tasks the worker has taken out of the queue and not finished, and not begun.\<close>

fun held_tasks :: "('a, 'v) worker \<Rightarrow> ('a, 'v) task list" where
  "held_tasks (Batch ts) = ts"
| "held_tasks (Executing t ts) = t # ts"
| "held_tasks (Ending t r ts) = t # ts"
| "held_tasks w = []"

fun unbegun_tasks :: "('a, 'v) worker \<Rightarrow> ('a, 'v) task list" where
  "unbegun_tasks (Batch ts) = ts"
| "unbegun_tasks (Executing t ts) = ts"
| "unbegun_tasks (Ending t r ts) = ts"
| "unbegun_tasks w = []"

definition crashed :: "('a, 'v) worker \<Rightarrow> bool" where
  "crashed w \<longleftrightarrow> (case w of Crashed e \<Rightarrow> True | _ \<Rightarrow> False)"

definition started :: "'r fstate \<Rightarrow> bool" where
  "started st \<longleftrightarrow> (case st of RUNNING \<Rightarrow> True | FINISHED r \<Rightarrow> True | _ \<Rightarrow> False)"

lemmas fstate_preds = started_def waiting_def settled_def cancelled_def

definition own_tasks :: "('a, 'v, 'r) executor \<Rightarrow> ('a, 'v) worker \<Rightarrow> ('a, 'v) task list" where
  "own_tasks x w = get_tasks (tasks x) @ held_tasks w"

definition ids_inv :: "('a, 'v, 'r) executor \<Rightarrow> ('a, 'v) worker \<Rightarrow> bool" where
  "ids_inv x w \<longleftrightarrow>
     distinct (map future (own_tasks x w)) \<and> (\<forall>t \<in> set (own_tasks x w). future t < next_future x)"

definition futures_inv :: "('a, 'v, 'r) executor \<Rightarrow> ('a, 'v) worker \<Rightarrow> bool" where
  "futures_inv x w \<longleftrightarrow>
     (\<forall>t \<in> set (get_tasks (tasks x) @ unbegun_tasks w). waiting (futures x (future t))) \<and>
     (\<forall>t ts. w = Executing t ts \<longrightarrow> futures x (future t) = RUNNING) \<and>
     (\<forall>t r ts. w = Ending t r ts \<longrightarrow>
        started (futures x (future t)) \<and> (r = None \<longrightarrow> settled (futures x (future t))))"

definition held_inv :: "('a, 'v) worker \<Rightarrow> rat \<Rightarrow> bool" where
  "held_inv w n \<longleftrightarrow> sorted (map task_key (held_tasks w)) \<and> (\<forall>t \<in> set (held_tasks w). abs_time t \<le> n)"

definition begun_inv :: "('a, 'v, 'r) executor \<Rightarrow> (('a, 'v) task \<times> rat) list \<Rightarrow> bool" where
  "begun_inv x b \<longleftrightarrow>
     distinct (map (\<lambda>(t, _). future t) b) \<and>
     (\<forall>(t, n) \<in> set b. future t < next_future x \<and> started (futures x (future t)) \<and> abs_time t \<le> n)"

definition core_inv ::
  "('a, 'v, 'r) executor \<Rightarrow> ('a, 'v) worker \<Rightarrow> rat \<Rightarrow> (('a, 'v) task \<times> rat) list \<Rightarrow> bool" where
  "core_inv x w n b \<longleftrightarrow>
     \<not> locked x \<and> (crashed w \<or> queue_ok (tasks x)) \<and> ids_inv x w \<and> futures_inv x w \<and>
     held_inv w n \<and> begun_inv x b"

lemmas core_defs = core_inv_def ids_inv_def futures_inv_def held_inv_def begun_inv_def own_tasks_def

lemma notify_simps [simp]:
  "held_tasks (notify w) = held_tasks w" "unbegun_tasks (notify w) = unbegun_tasks w"
  "crashed (notify w) = crashed w" "notify w = Executing t ts \<longleftrightarrow> w = Executing t ts"
  "notify w = Ending t r ts \<longleftrightarrow> w = Ending t r ts"
  by (cases w; simp add: crashed_def)+

lemma core_notify [simp]: "core_inv x (notify w) n b = core_inv x w n b"
  by (simp add: core_defs)

lemma core_tick: "core_inv x w n b \<Longrightarrow> n \<le> t \<Longrightarrow> core_inv x w t b"
  by (auto simp: core_defs intro: order_trans)

text \<open>The worker moves while it holds no task.\<close>

lemma core_idle:
  assumes "core_inv x w n b" and "held_tasks w = []" and "held_tasks w' = []"
    and "crashed w' \<or> \<not> crashed w"
  shows "core_inv x w' n b"
proof -
  have "unbegun_tasks u = []" "u \<noteq> Executing t ts" "u \<noteq> Ending t r ts" if "held_tasks u = []"
    for u :: "('a, 'v) worker" and t ts r
    using that by (cases u; simp)+
  with assms show ?thesis by (auto simp: core_defs)
qed

lemma core_other_fields:
  "core_inv (x\<lparr>status := st\<rparr>) w n b = core_inv x w n b"
  "core_inv (x\<lparr>tasks_to_finish := k\<rparr>) w n b = core_inv x w n b"
  by (simp_all add: core_defs)

lemma core_init: "core_inv new_executor NotStarted n []"
  by (simp add: core_defs new_executor_def get_tasks_def new_queue_def queue_ok_def)

lemma core_prologue: "core_inv x w n b \<Longrightarrow> core_inv (run_prologue x) w n b"
  by (simp add: run_prologue_def core_other_fields)

lemma core_stop: "core_inv x w n b \<Longrightarrow> stop sync x = (r, x') \<Longrightarrow> core_inv x' w n b"
  by (auto simp: stop_eq core_inv_def [of x] core_other_fields)

section \<open>The operations keep it\<close>

lemma core_schedule:
  assumes inv: "core_inv x w n b"
    and sch: "schedule_delayed olt time delay prio act arguments kws x = (r, x')"
  shows "core_inv x' w n b"
proof (cases "status x = Running")
  case False
  then show ?thesis using assms schedule_when_stopped [of x] by (simp add: core_inv_def)
next
  case True
  let ?t = "new_task time delay prio act arguments kws (next_future x)"
  let ?q = "snd (schedule_task olt ?t (tasks x))"
  have unlocked: "\<not> locked x" using inv by (simp add: core_inv_def)
  have x': "x' = x\<lparr>tasks := ?q, futures := (futures x)(next_future x := PENDING),
      next_future := Suc (next_future x)\<rparr>"
    using sch schedule_when_running [OF unlocked True, of olt time delay prio act arguments kws]
    by (auto simp: Let_def split: prod.splits)
  have ms: "mset (get_tasks ?q) = add_mset ?t (mset (get_tasks (tasks x)))"
    by (rule tq.schedule_adds)
  have set: "set (get_tasks ?q) = insert ?t (set (get_tasks (tasks x)))"
    by (rule tq.schedule_set)
  have perm: "mset (get_tasks ?q @ held_tasks w) = mset (?t # get_tasks (tasks x) @ held_tasks w)"
    using ms by simp
  have old: "\<forall>t \<in> set (own_tasks x w). future t < next_future x"
    using inv by (simp add: core_defs)
  then have fresh: "\<forall>t \<in> set (own_tasks x w). future t \<noteq> next_future x" by auto
  have "ids_inv x' w"
    using inv distinct_map_mset [OF perm, of future] fresh old
    by (auto simp: x' core_defs set less_Suc_eq)
  moreover have "futures_inv x' w"
  proof -
    have "set (unbegun_tasks w) \<subseteq> set (held_tasks w)" by (cases w) auto
    then show ?thesis
      using inv fresh by (auto simp: x' core_defs set waiting_def)
  qed
  moreover have "begun_inv x' b"
    using inv by (fastforce simp: x' core_defs)
  ultimately show ?thesis
    using inv schedule_task_ok [of "tasks x" olt ?t] by (auto simp: x' core_inv_def)
qed

lemma cancel_preds [simp]:
  "settled (snd (cancel st)) = settled st" "cancelled st \<Longrightarrow> cancelled (snd (cancel st))"
  by (cases st; simp add: cancel_def fstate_preds)+

lemma core_cancel:
  assumes "core_inv x w n b" and "cancel_future f x = (c, x')"
  shows "core_inv x' w n b"
proof -
  have st: "waiting (snd (cancel st)) = waiting st" "started (snd (cancel st)) = started st"
    "snd (cancel st) = RUNNING \<longleftrightarrow> st = RUNNING" for st :: "'r fstate"
    by (cases st; simp add: cancel_def fstate_preds)+
  have "x' = x\<lparr>futures := (futures x)(f := snd (cancel (futures x f)))\<rparr>"
    using assms(2) by (auto simp: cancel_future_def split: prod.splits)
  with assms(1) show ?thesis
    by (simp add: core_defs st fun_upd_def if_distrib) (auto simp: st)
qed

lemma core_pop:
  assumes inv: "core_inv x w n b" and idle: "held_tasks w = []" "\<not> crashed w"
    and pop: "pop_expired olt t x = (Inr due, x')" and le: "n \<le> t"
  shows "core_inv x' (Batch due) t b"
proof -
  obtain q where q: "pop_tasks_till_timestamp olt t (tasks x) = (Inr due, q)" "x' = x\<lparr>tasks := q\<rparr>"
    using pop by (auto simp: pop_expired_def split: prod.splits)
  have ok: "queue_ok (tasks x)" using inv idle(2) by (simp add: core_inv_def)
  have ms: "mset (get_tasks (tasks x)) = mset (get_tasks q @ due)"
    using tq.pop_splits [OF ok q(1)] by simp
  have set: "set (get_tasks (tasks x)) = set (get_tasks q) \<union> set due"
    using tq.pop_set [OF ok q(1)] by auto
  have "held_inv (Batch due) t"
    using tq.pop_sorted [OF ok q(1)] tq.pop_due [OF ok q(1)] by (simp add: held_inv_def task_key_def)
  moreover have "ids_inv x' (Batch due)"
    using inv idle distinct_map_mset [OF ms, of future] set by (auto simp: q(2) core_defs)
  moreover have "futures_inv x' (Batch due)" "begun_inv x' b"
    using inv set by (auto simp: q(2) core_defs)
  ultimately show ?thesis
    using inv tq.pop_ok [OF ok q(1)] by (simp add: core_inv_def q(2))
qed

lemma core_pop_crash:
  assumes inv: "core_inv x w n b" and idle: "held_tasks w = []" "\<not> crashed w"
    and pop: "pop_expired olt t x = (Inl e, x')" and le: "n \<le> t"
  shows "core_inv x' (Crashed e) t b"
proof -
  obtain q where q: "pop_tasks_till_timestamp olt t (tasks x) = (Inl e, q)" "x' = x\<lparr>tasks := q\<rparr>"
    using pop by (auto simp: pop_expired_def split: prod.splits)
  have "mset (get_tasks q) \<subseteq># mset (get_tasks (tasks x))"
    using tq.pop_raises_keeps [OF _ q(1)] inv idle(2) by (simp add: core_inv_def)
  then obtain lost where ms: "mset (get_tasks (tasks x)) = mset (lost @ get_tasks q)"
    by (metis add.commute ex_mset mset_append subset_mset.le_iff_add)
  then have set: "set (get_tasks q) \<subseteq> set (get_tasks (tasks x))"
    by (metis mset_eq_setD set_append sup_ge2)
  show ?thesis
    using inv idle distinct_map_mset [OF ms, of future] set
    by (auto simp: q(2) core_defs crashed_def)
qed

text \<open>
  A task of the batch is skipped, begun or ended. The futures of the other tasks are
  untouched, because all of them differ.
\<close>

lemma core_batch_ids:
  assumes "core_inv x w n b" and "held_tasks w = t # ts"
  shows "\<And>u. u \<in> set ts \<Longrightarrow> future u \<noteq> future t"
    and "\<And>u. u \<in> set (get_tasks (tasks x)) \<Longrightarrow> future u \<noteq> future t"
    and "future t < next_future x"
proof -
  have ids: "ids_inv x w" using assms(1) by (simp add: core_inv_def)
  then show "future t < next_future x" using assms(2) by (simp add: ids_inv_def own_tasks_def)
  have dis: "future t \<notin> future ` set ts" "future t \<notin> future ` set (get_tasks (tasks x))"
    using ids assms(2) by (auto simp: ids_inv_def own_tasks_def)
  show "future u \<noteq> future t" if "u \<in> set ts" for u
    using dis(1) imageI [OF that, of future] by metis
  show "future u \<noteq> future t" if "u \<in> set (get_tasks (tasks x))" for u
    using dis(2) imageI [OF that, of future] by metis
qed

lemma core_skip:
  assumes inv: "core_inv x (Batch (t # ts)) n b" and beg: "begin_task t x = (Inr False, x')"
  shows "core_inv x' (Batch ts) n b"
proof -
  have x': "futures x (future t) = CANCELLED"
    "x' = x\<lparr>futures := (futures x)(future t := CANCELLED_AND_NOTIFIED)\<rparr>"
    using begin_task_cases [OF beg] by auto
  note ids = core_batch_ids [OF inv, simplified]
  have "futures_inv x' (Batch ts)"
    using inv ids(1,2) by (auto simp: x'(2) core_defs)
  moreover have "begun_inv x' b"
    using inv x'(1) by (fastforce simp: x'(2) core_defs started_def)
  ultimately show ?thesis
    using inv by (simp add: core_inv_def x'(2) ids_inv_def own_tasks_def held_inv_def crashed_def)
qed

lemma core_begin:
  assumes inv: "core_inv x (Batch (t # ts)) n b" and beg: "begin_task t x = (Inr True, x')"
  shows "core_inv x' (Executing t ts) n (b @ [(t, n)])"
proof -
  have x': "futures x (future t) = PENDING"
    "x' = x\<lparr>futures := (futures x)(future t := RUNNING)\<rparr>"
    using begin_task_cases [OF beg] by auto
  note ids = core_batch_ids [OF inv, simplified]
  have "futures_inv x' (Executing t ts)"
    using inv ids(1,2) by (auto simp: x'(2) core_defs)
  moreover have "future t \<notin> set (map (\<lambda>(t, _). future t) b)"
    using inv x'(1) by (auto simp: core_defs started_def)
  then have "begun_inv x' (b @ [(t, n)])"
    using inv ids(3) by (auto simp: x'(2) core_defs started_def)
  ultimately show ?thesis
    using inv by (simp add: core_inv_def x'(2) ids_inv_def own_tasks_def held_inv_def crashed_def)
qed

lemma core_finish:
  assumes inv: "core_inv x (Executing t ts) n b" and ended: "finish_task t out x = (r, x')"
  shows "core_inv x' (Ending t (case r of Inl e \<Rightarrow> Some e | Inr _ \<Rightarrow> None) ts) n b"
proof -
  have run: "futures x (future t) = RUNNING" using inv by (simp add: core_defs)
  note ids = core_batch_ids [OF inv, simplified]
  define fs where "fs = (case out of RaisesBase e \<Rightarrow> futures x
      | _ \<Rightarrow> (futures x)(future t := FINISHED (outcome_value out)))"
  have x': "x' = x\<lparr>futures := fs\<rparr>" and r: "r = (case out of RaisesBase e \<Rightarrow> Inl e | _ \<Rightarrow> Inr ())"
    using ended finish_task_running [OF run, of out] by (auto simp: fs_def)
  have fs: "fs f = futures x f" if "f \<noteq> future t" for f
    using that by (simp add: fs_def split: outcome.split)
  have fst: "started (fs (future t))" "r = Inr u \<Longrightarrow> settled (fs (future t))" for u
    by (simp_all add: fs_def r started_def run split: outcome.splits)
  have wait: "\<forall>u \<in> set (get_tasks (tasks x)) \<union> set ts. waiting (fs (future u))"
    using inv ids(1,2) fs by (auto simp: core_defs)
  have st: "started (fs f)" if "started (futures x f)" for f
    using that fs [of f] fst by (cases "f = future t") auto
  have beg: "begun_inv x' b"
    using inv st by (fastforce simp: core_defs x')
  show ?thesis
    using inv wait beg fst
    by (auto simp: core_inv_def x' ids_inv_def own_tasks_def held_inv_def crashed_def futures_inv_def split: sum.splits)
qed

lemma count_down_keeps [simp]:
  "tasks (count_down x) = tasks x" "futures (count_down x) = futures x" "status (count_down x) = status x"
  "next_future (count_down x) = next_future x" "locked (count_down x) = locked x"
  by (simp_all add: count_down_def)

lemma core_count:
  assumes "core_inv x (Ending t r ts) n b"
  shows "core_inv (count_down x) (Batch ts) n b" and "core_inv (count_down x) (Crashed e) n b"
  using assms by (auto simp: core_defs crashed_def)

section \<open>Every reachable state\<close>

definition sys_inv :: "('a, 'v, 'r) sys \<Rightarrow> bool" where
  "sys_inv s \<longleftrightarrow> core_inv (ex s) (worker s) (now s) (begun s)"

lemma wait_turn_keeps: "wait_turn time x = (r, x') \<Longrightarrow> core_inv x' w n b = core_inv x w n b"
  by (auto simp: wait_turn_def Let_def core_other_fields split: if_splits option.splits)

lemma sys_inv_step:
  assumes "sched_step olt s l s'" and "sys_inv s"
  shows "sys_inv s'"
  using assms
proof (induction rule: sched_step.induct)
  case (check_due s x t due y)
  then show ?case
    using core_pop [of x Checking] wait_turn_keeps [OF check_due(2)]
    by (simp add: sys_inv_def crashed_def)
next
  case (check_crash s x t e y)
  then show ?case
    using core_pop_crash [of x Checking] wait_turn_keeps [OF check_crash(2)]
    by (simp add: sys_inv_def crashed_def)
next
  case (begin_crash s t ts e x)
  have "futures (ex s) (future t) = PENDING \<or> futures (ex s) (future t) = CANCELLED"
    using begin_crash by (cases "futures (ex s) (future t)") (auto simp: sys_inv_def core_defs waiting_def)
  then show ?case
    using begin_crash(2) begin_task_pending begin_task_cancelled by fastforce
next
  case (schedule s delay prio act arguments kws r x)
  then show ?case
    using core_schedule [of "ex s" "worker s"] by (auto simp: sys_inv_def split: sum.split)
qed (auto simp: sys_inv_def crashed_def wait_turn_keeps
      intro: core_tick core_prologue core_stop core_cancel core_skip core_begin
        core_finish core_count core_idle
      elim: core_idle [where w' = Starting] core_idle [where w' = Checking]
        core_idle [where w' = Finished] core_idle [where w' = "Sleeping d n" for d n])

lemma reachable_inv: "reachable olt s \<Longrightarrow> sys_inv s"
proof (induction rule: reachable_induct)
  case (init t0)
  show ?case by (simp add: sys_inv_def init_sys_def core_init)
next
  case (step s l s')
  then show ?case using sys_inv_step by blast
qed

end
