(* ===== verification/ExecutorStop.thy ===== *)
theory ExecutorStop imports ExecutorInvariants begin

text \<open>
  Three more invariants of the executor's system: no task is lost (unless the worker
  crashed), a worker asleep without a notification has nothing to do before its deadline,
  and after \<^verbatim>\<open>stop(sync=True)\<close> on an executor between two batches the
  counter of tasks to finish covers every task that still has to run.
\<close>

section \<open>What the operations change\<close>

lemma schedule_effect:
  assumes "\<not> locked x" and "schedule_delayed olt time delay prio act arguments kws x = (r, x')"
  shows "(status x \<noteq> Running \<and> r = Inl Stopped_exc \<and> x' = x) \<or>
    (status x = Running \<and>
      (\<exists>t err q. t = new_task time delay prio act arguments kws (next_future x) \<and>
        schedule_task olt t (tasks x) = (err, q) \<and>
        r = (case err of Some e \<Rightarrow> Inl e | None \<Rightarrow> Inr (next_future x)) \<and>
        x' = x\<lparr>tasks := q, futures := (futures x)(next_future x := PENDING),
               next_future := Suc (next_future x)\<rparr>))"
  using assms schedule_when_stopped [OF assms(1)] schedule_when_running [OF assms(1)]
  by (cases "status x = Running") (auto simp: Let_def split: prod.splits)

lemma cancel_effect:
  assumes "cancel_future f x = (c, x')"
  shows "x' = x\<lparr>futures := (futures x)(f := snd (cancel (futures x f)))\<rparr>"
  using assms by (auto simp: cancel_future_def split: prod.splits)

lemma wait_turn_effect:
  assumes "wait_turn time x = (r, x')"
  shows "tasks x' = tasks x" "futures x' = futures x" "next_future x' = next_future x"
    "tasks_to_finish x' = tasks_to_finish x" "locked x' = locked x"
    "r \<noteq> Return False \<Longrightarrow> x' = x" "r = Return False \<Longrightarrow> status x' = Stopped"
    "r \<noteq> Return False \<Longrightarrow> status x \<noteq> Stopped"
  using assms by (auto simp: wait_turn_def Let_def split: if_splits option.splits)

lemma finish_effect:
  assumes "futures x (future t) = RUNNING" and "finish_task t out x = (r, x')"
  shows "\<exists>st. x' = x\<lparr>futures := (futures x)(future t := st)\<rparr> \<and> started st"
  by (intro exI [of _ "futures x' (future t)"])
    (use assms in \<open>cases out; auto simp: finish_task_running started_def fun_upd_idem\<close>)

lemma started_not_cancelled: "started st \<Longrightarrow> \<not> cancelled st"
  by (cases st) (simp_all add: fstate_preds)

lemma sys_inv_unlocked: "sys_inv s \<Longrightarrow> \<not> locked (ex s)"
  by (simp add: sys_inv_def core_inv_def)

lemma sys_inv_queue_ok: "sys_inv s \<Longrightarrow> \<not> crashed (worker s) \<Longrightarrow> queue_ok (tasks (ex s))"
  by (simp add: sys_inv_def core_inv_def)

lemma sys_inv_executing: "sys_inv s \<Longrightarrow> worker s = Executing t ts \<Longrightarrow> futures (ex s) (future t) = RUNNING"
  by (simp add: sys_inv_def core_defs)

lemma sys_inv_ending:
  "sys_inv s \<Longrightarrow> worker s = Ending t r ts \<Longrightarrow>
   started (futures (ex s) (future t)) \<and> (r = None \<longrightarrow> settled (futures (ex s) (future t)))"
  by (simp add: sys_inv_def core_defs)

lemma sys_inv_head_ids:
  "sys_inv s \<Longrightarrow> held_tasks (worker s) = t # ts \<Longrightarrow> u \<in> set ts \<union> set (get_tasks (tasks (ex s))) \<Longrightarrow>
   future u \<noteq> future t"
  unfolding sys_inv_def using core_batch_ids(1,2) by blast

section \<open>No task is lost\<close>

text \<open>Every future handed out belongs to a task in the queue or with the worker, or is settled.\<close>

definition kept_inv :: "('a, 'v, 'r) sys \<Rightarrow> bool" where
  "kept_inv s \<longleftrightarrow> crashed (worker s) \<or>
     (\<forall>f < next_future (ex s).
        f \<in> future ` set (own_tasks (ex s) (worker s)) \<or> settled (futures (ex s) f))"

lemma own_tasks_worker:
  "held_tasks w = held_tasks w' \<Longrightarrow> own_tasks x w = own_tasks x w'"
  by (simp add: own_tasks_def)

lemma kept_inv_step:
  assumes "sched_step olt s l s'" and "sys_inv s" and "kept_inv s"
  shows "kept_inv s'"
  using assms
proof (induction rule: sched_step.induct)
  case (check_stop s x)
  then show ?case
    by (simp add: kept_inv_def own_tasks_def crashed_def wait_turn_effect [OF check_stop(2)])
next
  case (check_due s x t due y)
  note same = wait_turn_effect [OF check_due(2)]
  have "x = ex s" using same(6) by simp
  moreover obtain q where q: "pop_tasks_till_timestamp olt t (tasks x) = (Inr due, q)" "y = x\<lparr>tasks := q\<rparr>"
    using check_due(4) by (auto simp: pop_expired_def split: prod.splits)
  moreover have "queue_ok (tasks (ex s))"
    using check_due by (intro sys_inv_queue_ok) (simp_all add: crashed_def)
  ultimately have "set (get_tasks (tasks (ex s))) = set due \<union> set (get_tasks q)"
    using tq.pop_set by blast
  then show ?case
    using check_due \<open>x = ex s\<close> q(2) by (auto simp: kept_inv_def own_tasks_def crashed_def)
next
  case (skip_task s t ts x)
  from begin_task_cases [OF skip_task(2)] show ?case
    using skip_task by (auto simp: kept_inv_def own_tasks_def crashed_def)
next
  case (begin_action s t ts x)
  from begin_task_cases [OF begin_action(2)] show ?case
    using begin_action by (auto simp: kept_inv_def own_tasks_def crashed_def)
next
  case (end_action s t ts out r x)
  from finish_effect [OF sys_inv_executing [OF end_action(3,1)] end_action(2)] show ?case
    using end_action by (auto simp: kept_inv_def own_tasks_def crashed_def split: if_splits)
next
  case (count s t ts)
  with sys_inv_ending [OF count(2,1)] show ?case
    by (auto simp: kept_inv_def own_tasks_def crashed_def)
next
  case (schedule s delay prio act arguments kws r x)
  have held: "held_tasks (case r of Inl e \<Rightarrow> worker s | Inr f \<Rightarrow> notify (worker s)) = held_tasks (worker s)"
    by (simp split: sum.split)
  have cr: "crashed (case r of Inl e \<Rightarrow> worker s | Inr f \<Rightarrow> notify (worker s)) = crashed (worker s)"
    by (simp split: sum.split)
  from schedule_effect [OF sys_inv_unlocked [OF schedule(2)] schedule(1)] show ?case
  proof
    assume "status (ex s) \<noteq> Running \<and> r = Inl Stopped_exc \<and> x = ex s"
    with schedule show ?case by (simp add: kept_inv_def)
  next
    assume "status (ex s) = Running \<and>
      (\<exists>t err q. t = new_task (now s) delay prio act arguments kws (next_future (ex s)) \<and>
        schedule_task olt t (tasks (ex s)) = (err, q) \<and>
        r = (case err of None \<Rightarrow> Inr (next_future (ex s)) | Some e \<Rightarrow> Inl e) \<and>
        x = (ex s)\<lparr>tasks := q, futures := (futures (ex s))(next_future (ex s) := PENDING),
               next_future := Suc (next_future (ex s))\<rparr>)"
    moreover define t where "t = new_task (now s) delay prio act arguments kws (next_future (ex s))"
    ultimately obtain err q where t: "future t = next_future (ex s)"
      "schedule_task olt t (tasks (ex s)) = (err, q)"
      "x = (ex s)\<lparr>tasks := q, futures := (futures (ex s))(next_future (ex s) := PENDING),
               next_future := Suc (next_future (ex s))\<rparr>" by auto
    have "set (get_tasks q) = insert t (set (get_tasks (tasks (ex s))))"
      using tq.schedule_set [of olt t "tasks (ex s)"] t(2) by simp
    with schedule(3) t(1,3) show ?case
      by (auto simp: kept_inv_def held cr own_tasks_def less_Suc_eq)
  qed
next
  case (stop_call sync s r x)
  with sys_inv_unlocked [OF stop_call(2)] show ?case
    by (auto simp: kept_inv_def stop_eq own_tasks_def)
next
  case (cancel_call f s b x)
  with cancel_effect [OF cancel_call(2)] show ?case
    by (auto simp: kept_inv_def own_tasks_def)
qed (auto simp: kept_inv_def own_tasks_def crashed_def run_prologue_def dest: wait_turn_effect)

lemma reachable_kept: "reachable olt s \<Longrightarrow> kept_inv s"
proof (induction rule: reachable_induct)
  case (init t0)
  show ?case by (simp add: kept_inv_def init_sys_def new_executor_def)
next
  case (step s l s')
  then show ?case using kept_inv_step reachable_inv by blast
qed

section \<open>No wake-up is missed\<close>

text \<open>
  A worker asleep and not notified: the executor is not stopped, its deadline is the time of
  the earliest task, and without a deadline the queue is empty.
\<close>

definition sleep_inv :: "('a, 'v, 'r) sys \<Rightarrow> bool" where
  "sleep_inv s \<longleftrightarrow>
     (\<forall>deadline. worker s = Sleeping deadline False \<longrightarrow>
        status (ex s) \<noteq> Stopped \<and>
        (status (ex s) = StoppedSync \<longrightarrow> tasks (ex s) \<noteq> [] \<and> tasks_to_finish (ex s) \<noteq> 0) \<and>
        (deadline = None \<longleftrightarrow> get_tasks (tasks (ex s)) = []) \<and>
        (\<forall>d. deadline = Some d \<longrightarrow>
           (\<exists>t \<in> set (get_tasks (tasks (ex s))). abs_time t = d) \<and>
           (\<forall>t \<in> set (get_tasks (tasks (ex s))). d \<le> abs_time t)))"

lemma sleep_inv_awake: "(\<And>d. worker s \<noteq> Sleeping d False) \<Longrightarrow> sleep_inv s"
  by (simp add: sleep_inv_def)

lemma notify_awake: "notify w \<noteq> Sleeping d False"
  by (cases w) auto

lemma sleep_inv_block:
  assumes ok: "queue_ok (tasks x)" and turn: "wait_turn time x = (Block delay, x')"
    and s: "worker s = Sleeping (map_option (\<lambda>d. time + d) delay) False" "ex s = x'"
  shows "sleep_inv s"
proof -
  have x': "x' = x" using wait_turn_effect(6) [OF turn] by simp
  have d: "delay = get_time_till_next_task time (tasks x)" "status x \<noteq> Stopped"
    "status x = StoppedSync \<longrightarrow> tasks x \<noteq> [] \<and> tasks_to_finish x \<noteq> 0"
    using turn by (auto simp: wait_turn_def Let_def empty_def split: if_splits option.splits)
  have none: "delay = None \<longleftrightarrow> get_tasks (tasks x) = []"
    unfolding d(1) by (rule tq.till_None [OF ok])
  have some: "(\<exists>t \<in> set (get_tasks (tasks x)). abs_time t = time + r) \<and>
      (\<forall>t \<in> set (get_tasks (tasks x)). time + r \<le> abs_time t)" if "delay = Some r" for r
    using tq.till_attained [OF ok, of time r] tq.till_least [OF ok, of time r] that
    by (auto simp: d(1) task_key_def)
  show ?thesis
    using none some d(2,3) by (auto simp: sleep_inv_def s x')
qed

lemma sleep_inv_step:
  assumes "sched_step olt s l s'" and "sys_inv s" and "sleep_inv s"
  shows "sleep_inv s'"
  using assms
proof (induction rule: sched_step.induct)
  case (check_block s delay x)
  have "queue_ok (tasks (ex s))"
    using check_block by (intro sys_inv_queue_ok) (simp_all add: crashed_def)
  then show ?case by (rule sleep_inv_block [OF _ check_block(2)]) simp_all
next
  case (schedule s delay prio act arguments kws r x)
  show ?case
  proof (cases r)
    case (Inr f)
    then show ?thesis by (intro sleep_inv_awake) (simp add: notify_awake)
  next
    case (Inl e)
    show ?thesis
    proof (cases "\<exists>d. worker s = Sleeping d False")
      case False
      then show ?thesis by (intro sleep_inv_awake) (simp add: Inl)
    next
      case True
      then have ok: "queue_ok (tasks (ex s))"
        using schedule(2) by (auto intro!: sys_inv_queue_ok simp: crashed_def)
      from schedule_effect [OF sys_inv_unlocked [OF schedule(2)] schedule(1)] Inl
      consider "x = ex s" | t q where "schedule_task olt t (tasks (ex s)) = (Some e, q)"
        "x = (ex s)\<lparr>tasks := q, futures := (futures (ex s))(next_future (ex s) := PENDING),
               next_future := Suc (next_future (ex s))\<rparr>"
        by (auto split: option.splits)
      then show ?thesis
      proof cases
        case 1
        with schedule(3) Inl show ?thesis by (simp add: sleep_inv_def)
      next
        case (2 t q)
        obtain u where u: "u \<in> set (get_tasks (tasks (ex s)))" "abs_time t = abs_time u"
          using schedule_task_raises [of olt t "tasks (ex s)" e] ok 2(1) by (auto simp: task_key_def)
        have "set (get_tasks q) = insert t (set (get_tasks (tasks (ex s))))"
          using tq.schedule_set [of olt t "tasks (ex s)"] 2(1) by simp
        moreover from this have "q \<noteq> []" by (auto simp: get_tasks_def)
        ultimately show ?thesis
          using schedule(3) Inl u 2(2) by (auto simp: sleep_inv_def)
      qed
    qed
  qed
next
  case (stop_call sync s r x)
  then show ?case by (intro sleep_inv_awake) (simp add: notify_awake)
next
  case (cancel_call f s b x)
  with cancel_effect [OF cancel_call(2)] show ?case by (simp add: sleep_inv_def)
qed (auto simp: sleep_inv_def)

lemma reachable_sleep: "reachable olt s \<Longrightarrow> sleep_inv s"
proof (induction rule: reachable_induct)
  case (init t0)
  show ?case by (simp add: sleep_inv_def init_sys_def)
next
  case (step s l s')
  then show ?case using sleep_inv_step reachable_inv by blast
qed

section \<open>A synchronous stop between two batches\<close>

definition open_count :: "('a, 'v, 'r) executor \<Rightarrow> ('a, 'v) worker \<Rightarrow> nat" where
  "open_count x w = size (filter_mset (\<lambda>t. \<not> task_cancelled x t) (mset (own_tasks x w)))"

definition sync_inv :: "('a, 'v, 'r) executor \<Rightarrow> ('a, 'v) worker \<Rightarrow> bool" where
  "sync_inv x w \<longleftrightarrow>
     status x \<noteq> Running \<and>
     (status x = StoppedSync \<longrightarrow> int (open_count x w) \<le> tasks_to_finish x) \<and>
     (status x = Stopped \<longrightarrow> live_tasks x = [] \<and> held_tasks w = [])"

text \<open>The labels that may follow the stop: no new run, no other stop.\<close>

definition after_stop :: "label \<Rightarrow> bool" where
  "after_stop l \<longleftrightarrow> l \<noteq> EnterRun \<and> (\<forall>b. l \<noteq> Stop b)"

lemma open_count_mono:
  assumes "mset (own_tasks x' w') \<subseteq># mset (own_tasks x w)"
    and "\<And>t. task_cancelled x t \<Longrightarrow> task_cancelled x' t"
  shows "open_count x' w' \<le> open_count x w"
proof -
  have "filter_mset (\<lambda>t. \<not> task_cancelled x' t) (mset (own_tasks x' w'))
      \<subseteq># filter_mset (\<lambda>t. \<not> task_cancelled x t) (mset (own_tasks x' w'))"
    by (rule filter_mset_mono_strong) (use assms(2) in auto)
  also have "\<dots> \<subseteq># filter_mset (\<lambda>t. \<not> task_cancelled x t) (mset (own_tasks x w))"
    by (rule multiset_filter_mono [OF assms(1)])
  finally show ?thesis unfolding open_count_def by (rule size_mset_mono)
qed

lemma open_count_live: "length (live_tasks x) \<le> open_count x w"
  by (simp add: open_count_def live_tasks_def own_tasks_def flip: mset_filter)

lemma sync_inv_mono:
  assumes "sync_inv x w" and "mset (own_tasks x' w') \<subseteq># mset (own_tasks x w)"
    and "\<And>t. task_cancelled x t \<Longrightarrow> task_cancelled x' t"
    and "status x' = status x" and "tasks_to_finish x' = tasks_to_finish x"
    and "status x = Stopped \<Longrightarrow> tasks x' = tasks x \<and> held_tasks w' = []"
  shows "sync_inv x' w'"
proof -
  have "live_tasks x' = []" if "status x = Stopped"
  proof -
    have "tasks x' = tasks x" "live_tasks x = []"
      using that assms(1,6) by (simp_all add: sync_inv_def)
    then show ?thesis using assms(3) by (auto simp: live_tasks_def filter_empty_conv)
  qed
  then show ?thesis
    using assms open_count_mono [OF assms(2,3)] by (auto simp: sync_inv_def)
qed

lemma sync_inv_count:
  assumes inv: "sync_inv x (Ending t r ts)" and run: "started (futures x (future t))"
    and w: "w' = Batch ts \<or> crashed w'"
  shows "sync_inv (count_down x) w'"
proof -
  have st: "status x = StoppedSync" using inv by (cases "status x") (simp_all add: sync_inv_def)
  have x': "tasks_to_finish (count_down x) = tasks_to_finish x - 1"
    "\<And>u. task_cancelled (count_down x) u = task_cancelled x u"
    using st by (simp_all add: count_down_def task_cancelled_def)
  have "held_tasks w' = ts \<or> held_tasks w' = []" using w by (cases w') (auto simp: crashed_def)
  then have sub: "mset (own_tasks (count_down x) w') \<subseteq># mset (own_tasks x (Batch ts))"
    by (auto simp: own_tasks_def)
  have "open_count x (Ending t r ts) = Suc (open_count x (Batch ts))"
    using started_not_cancelled [OF run] by (simp add: open_count_def own_tasks_def task_cancelled_def)
  moreover have "open_count (count_down x) w' \<le> open_count x (Batch ts)"
    by (rule open_count_mono [OF sub]) (simp add: x'(2))
  ultimately show ?thesis using inv st x' by (simp add: sync_inv_def)
qed

lemma sync_inv_check_stop:
  assumes inv: "sync_inv x Checking" and turn: "wait_turn time x = (Return False, x')"
  shows "sync_inv x' Finished"
proof -
  note same = wait_turn_effect [OF turn]
  have "live_tasks x = []"
  proof (cases "status x")
    case StoppedSync
    then have "tasks x = [] \<or> tasks_to_finish x = 0"
      using turn by (auto simp: wait_turn_def Let_def empty_def split: if_splits option.splits)
    then show ?thesis
      using inv StoppedSync open_count_live [of x Checking]
      by (auto simp: sync_inv_def live_tasks_def)
  qed (use inv in \<open>simp_all add: sync_inv_def\<close>)
  then show ?thesis
    using same by (simp add: sync_inv_def live_tasks_def task_cancelled_def)
qed

lemma sync_inv_step:
  assumes "sched_step olt s l s'" and "sys_inv s" and "sync_inv (ex s) (worker s)" and "after_stop l"
  shows "sync_inv (ex s') (worker s')"
  using assms
proof (induction rule: sched_step.induct)
  case (check_stop s x)
  then show ?case using sync_inv_check_stop by fastforce
next
  case (check_block s delay x)
  then show ?case
    using wait_turn_effect(6) [OF check_block(2)]
    by (auto intro: sync_inv_mono simp: own_tasks_def)
next
  case (check_due s x t due y)
  have x: "x = ex s" using wait_turn_effect(6) [OF check_due(2)] by simp
  obtain q where q: "pop_tasks_till_timestamp olt t (tasks x) = (Inr due, q)" "y = x\<lparr>tasks := q\<rparr>"
    using check_due(4) by (auto simp: pop_expired_def split: prod.splits)
  have "queue_ok (tasks (ex s))"
    using check_due by (intro sys_inv_queue_ok) (simp_all add: crashed_def)
  then have ms: "mset (get_tasks (tasks (ex s))) = mset due + mset (get_tasks q)"
    using tq.pop_splits q(1) x by blast
  have "status x \<noteq> Stopped" using wait_turn_effect(8) [OF check_due(2)] x by simp
  with check_due(6) ms show ?case
    by (auto intro!: sync_inv_mono [OF check_due(6)] simp: own_tasks_def q(2) x task_cancelled_def check_due(1))
next
  case (check_crash s x t e y)
  have x: "x = ex s" using wait_turn_effect(6) [OF check_crash(2)] by simp
  obtain q where q: "pop_tasks_till_timestamp olt t (tasks x) = (Inl e, q)" "y = x\<lparr>tasks := q\<rparr>"
    using check_crash(4) by (auto simp: pop_expired_def split: prod.splits)
  have "queue_ok (tasks (ex s))"
    using check_crash by (intro sys_inv_queue_ok) (simp_all add: crashed_def)
  then have sub: "mset (get_tasks q) \<subseteq># mset (get_tasks (tasks (ex s)))"
    using tq.pop_raises_keeps q(1) x by blast
  have "status x \<noteq> Stopped" using wait_turn_effect(8) [OF check_crash(2)] x by simp
  with check_crash(6) sub show ?case
    by (auto intro!: sync_inv_mono [OF check_crash(6)] simp: own_tasks_def q(2) x task_cancelled_def check_crash(1))
next
  case (skip_task s t ts x)
  from begin_task_cases [OF skip_task(2)] have x:
    "x = (ex s)\<lparr>futures := (futures (ex s))(future t := CANCELLED_AND_NOTIFIED)\<rparr>" by simp
  show ?case
    using skip_task(1,4) by (intro sync_inv_mono [OF skip_task(4)])
      (auto simp: x own_tasks_def task_cancelled_def cancelled_def sync_inv_def)
next
  case (begin_action s t ts x)
  from begin_task_cases [OF begin_action(2)] have x: "futures (ex s) (future t) = PENDING"
    "x = (ex s)\<lparr>futures := (futures (ex s))(future t := RUNNING)\<rparr>" by auto
  show ?case
    using begin_action(1,4) x(1) by (intro sync_inv_mono [OF begin_action(4)])
      (auto simp: x(2) own_tasks_def task_cancelled_def cancelled_def sync_inv_def split: if_splits)
next
  case (begin_crash s t ts e x)
  have "waiting (futures (ex s) (future t))"
    using begin_crash(1,3) by (simp add: sys_inv_def core_defs)
  then show ?case
    using begin_crash(2) begin_task_pending [of "ex s" t] begin_task_cancelled [of "ex s" t]
    by (cases "futures (ex s) (future t)") (auto simp: waiting_def)
next
  case (end_action s t ts out r x)
  note run = sys_inv_executing [OF end_action(3,1)]
  obtain st where x: "x = (ex s)\<lparr>futures := (futures (ex s))(future t := st)\<rparr>" "started st"
    using finish_effect [OF run end_action(2)] by blast
  show ?case
    using end_action(1,4) by (intro sync_inv_mono [OF end_action(4)])
      (auto simp: x own_tasks_def task_cancelled_def run sync_inv_def cancelled_def)
next
  case (count s t ts)
  then show ?case
    using sync_inv_count [of "ex s" t None ts "Batch ts"] sys_inv_ending [OF count(2,1)] by simp
next
  case (end_crash s t e ts)
  then show ?case
    using sync_inv_count [of "ex s" t "Some e" ts "Crashed e"] sys_inv_ending [OF end_crash(2,1)]
    by (simp add: crashed_def)
next
  case (schedule s delay prio act arguments kws r x)
  have "status (ex s) \<noteq> Running" using schedule(3) by (simp add: sync_inv_def)
  then show ?case
    using schedule schedule_effect [OF sys_inv_unlocked [OF schedule(2)] schedule(1)] by auto
next
  case (cancel_call f s b x)
  have x: "x = (ex s)\<lparr>futures := (futures (ex s))(f := snd (cancel (futures (ex s) f)))\<rparr>"
    using cancel_effect [OF cancel_call(2)] .
  show ?case
    by (rule sync_inv_mono [OF cancel_call(4)])
      (use cancel_call(4) in \<open>auto simp: x own_tasks_def task_cancelled_def sync_inv_def\<close>)
qed (auto simp: after_stop_def sync_inv_def open_count_def own_tasks_def)

lemma sync_inv_stop:
  assumes "\<not> locked x" and "held_tasks w = []" and "stop True x = (r, x')"
  shows "sync_inv x' (notify w)"
proof -
  have x': "x' = x\<lparr>tasks_to_finish := int (length (live_tasks x)),
      status := if live_tasks x \<noteq> [] then StoppedSync else Stopped\<rparr>"
    using assms(3) stop_eq [OF assms(1), of True] by simp
  moreover have "open_count x' (notify w) = length (live_tasks x)"
    using assms(2) by (simp add: x' open_count_def own_tasks_def live_tasks_def task_cancelled_def flip: mset_filter)
  moreover have "live_tasks x' = live_tasks x"
    by (simp add: x' live_tasks_def task_cancelled_def)
  ultimately show ?thesis
    using assms(2) by (auto simp: sync_inv_def split: if_splits)
qed

text \<open>A worker that returned left the executor stopped.\<close>

definition finished_inv :: "('a, 'v, 'r) sys \<Rightarrow> bool" where
  "finished_inv s \<longleftrightarrow> (worker s = Finished \<longrightarrow> status (ex s) = Stopped)"

lemma finished_inv_step:
  assumes "sched_step olt s l s'" and "sys_inv s" and "finished_inv s" and "after_stop l"
  shows "finished_inv s'"
  using assms
proof (induction rule: sched_step.induct)
  case (check_stop s x)
  then show ?case by (simp add: finished_inv_def wait_turn_effect(7) [OF check_stop(2)])
next
  case (schedule s delay prio act arguments kws r x)
  have "(case r of Inl e \<Rightarrow> worker s | Inr f \<Rightarrow> notify (worker s)) = Finished \<longleftrightarrow> worker s = Finished"
    by (cases "worker s") (simp_all split: sum.split)
  moreover have "status x = status (ex s)"
    using schedule_effect [OF sys_inv_unlocked [OF schedule(2)] schedule(1)] by auto
  ultimately show ?case using schedule(3) by (simp add: finished_inv_def)
next
  case (cancel_call f s b x)
  with cancel_effect [OF cancel_call(2)] show ?case by (simp add: finished_inv_def)
qed (auto simp: finished_inv_def after_stop_def)

lemma next_future_step: "sched_step olt s l s' \<Longrightarrow> sys_inv s \<Longrightarrow> next_future (ex s) \<le> next_future (ex s')"
proof (induction rule: sched_step.induct)
  case (schedule s delay prio act arguments kws r x)
  then show ?case
    using schedule_effect [OF sys_inv_unlocked [OF schedule(2)] schedule(1)] by auto
next
  case (stop_call sync s r x)
  then show ?case by (auto simp: stop_eq sys_inv_unlocked)
next
  case (cancel_call f s b x)
  with cancel_effect [OF cancel_call(2)] show ?case by simp
next
  case (end_action s t ts out r x)
  then show ?case
    using finish_effect [OF sys_inv_executing [OF end_action(3,1)] end_action(2)] by auto
qed (auto simp: run_prologue_def pop_expired_def begin_task_def Let_def
      dest!: wait_turn_effect(3) split: prod.splits sum.splits)

lemma after_stop_steps:
  assumes "sched_steps olt s ls s'" and "reachable olt s"
    and "sync_inv (ex s) (worker s)" and "finished_inv s" and "\<forall>l \<in> set ls. after_stop l"
  shows "sync_inv (ex s') (worker s') \<and> finished_inv s' \<and> next_future (ex s) \<le> next_future (ex s')"
  using assms
proof (induction rule: sched_steps.induct)
  case (steps_snoc s ls s' l s'')
  then have "sys_inv s'" using reachable_inv reachable_steps by blast
  with steps_snoc sync_inv_step finished_inv_step next_future_step show ?case
    by (fastforce intro: order_trans)
qed simp

text \<open>
  After a synchronous stop of an executor that is between two batches, the worker returns
  only when every task that was queued is finished or cancelled: nothing alive is left in
  the queue.
\<close>

lemma sync_stop_starts:
  assumes "sys_inv s" and "worker s = Checking \<or> worker s = Sleeping d n" and "sched_step olt s (Stop True) s1"
  shows "sync_inv (ex s1) (worker s1) \<and> finished_inv s1"
proof -
  obtain r where st: "stop True (ex s) = (r, ex s1)" "worker s1 = notify (worker s)"
    using assms(3) by (auto simp: step_Stop_simp)
  have held: "held_tasks (worker s) = []" "notify (worker s) \<noteq> Finished" using assms(2) by auto
  show ?thesis
    using sync_inv_stop [OF sys_inv_unlocked [OF assms(1)] held(1) st(1)] held(2) st(2)
    by (simp add: finished_inv_def)
qed

lemma sync_stop_drains:
  assumes "sync_inv (ex s) (worker s)" and "finished_inv s" and "worker s = Finished"
  shows "live_tasks (ex s) = []"
  using assms by (simp add: sync_inv_def finished_inv_def)

lemma sync_stop_completes:
  assumes reach: "reachable olt s" and idle: "worker s = Checking \<or> worker s = Sleeping d n"
    and stopped: "sched_step olt s (Stop True) s1" and run: "sched_steps olt s1 ls s2"
    and ls: "\<forall>l \<in> set ls. after_stop l" and fin: "worker s2 = Finished"
    and t: "t \<in> set (get_tasks (tasks (ex s)))"
  shows "settled (futures (ex s2) (future t)) \<or> cancelled (futures (ex s2) (future t))"
proof -
  have inv: "sys_inv s" using reachable_inv [OF reach] .
  have reach1: "reachable olt s1" using reachable_step [OF reach stopped] .
  from sync_stop_starts [OF inv idle stopped] after_stop_steps [OF run reach1 _ _ ls]
  have end2: "sync_inv (ex s2) (worker s2)" "finished_inv s2" "next_future (ex s1) \<le> next_future (ex s2)" by auto
  have "future t < next_future (ex s)"
    using inv t by (auto simp: sys_inv_def core_defs)
  then have "future t < next_future (ex s2)"
    using next_future_step [OF stopped inv] end2(3) by linarith
  moreover have "kept_inv s2" using reachable_kept reachable_steps [OF run reach1] by blast
  ultimately have "future t \<in> future ` set (get_tasks (tasks (ex s2))) \<or> settled (futures (ex s2) (future t))"
    using fin by (auto simp: kept_inv_def own_tasks_def crashed_def)
  then show ?thesis
    using sync_stop_drains [OF end2(1,2) fin] by (auto simp: live_tasks_def filter_empty_conv task_cancelled_def)
qed

section \<open>A thread that nobody stops\<close>

text \<open>A worker that has not entered \<open>run\<close>, or whose executor runs, ends by a call of \<open>stop\<close> only.\<close>

definition unstopped :: "('a, 'v, 'r) sys \<Rightarrow> bool" where
  "unstopped s \<longleftrightarrow> worker s \<noteq> Finished \<and> (worker s = NotStarted \<or> worker s = Starting \<or> status (ex s) = Running)"

lemma unstopped_step:
  assumes "sched_step olt s l s'" and "sys_inv s" and "\<forall>b. l \<noteq> Stop b" and "unstopped s"
  shows "unstopped s'"
  using assms
proof (induction rule: sched_step.induct)
  case (check_stop s x)
  then have False by (auto simp: unstopped_def wait_turn_def Let_def split: if_splits option.splits)
  then show ?case ..
next
  case (check_due s x t due y)
  then show ?case
    using wait_turn_effect(6) [OF check_due(2)] by (auto simp: unstopped_def pop_expired_def split: prod.splits)
next
  case (check_crash s x t e y)
  then show ?case
    using wait_turn_effect(6) [OF check_crash(2)] by (auto simp: unstopped_def pop_expired_def split: prod.splits)
next
  case (check_block s delay x)
  then show ?case using wait_turn_effect(6) [OF check_block(2)] by (simp add: unstopped_def)
next
  case (end_action s t ts out r x)
  then show ?case using finish_effect [OF sys_inv_executing [OF end_action(3,1)] end_action(2)] by (auto simp: unstopped_def)
next
  case (schedule s delay prio act arguments kws r x)
  then show ?case
    using schedule_effect [OF sys_inv_unlocked [OF schedule(2)] schedule(1)]
    by (cases "worker s") (auto simp: unstopped_def split: sum.splits option.splits)
next
  case (cancel_call f s b x)
  then show ?case using cancel_effect [OF cancel_call(2)] by (auto simp: unstopped_def)
qed (auto simp: unstopped_def run_prologue_def begin_task_def count_down_def Let_def split: prod.splits sum.splits)

lemma unstopped_steps:
  assumes "sched_steps olt s ls s'" and "sys_inv s" and "\<forall>b. Stop b \<notin> set ls" and "unstopped s"
  shows "unstopped s' \<and> sys_inv s'"
  using assms by (induction rule: sched_steps.induct) (auto dest: unstopped_step sys_inv_step)


lemma entered_running:
  assumes "sched_steps olt s ls s'" and "sys_inv s" and "\<forall>b. Stop b \<notin> set ls" and "unstopped s"
  shows "EnterRun \<in> set ls \<longrightarrow> worker s' \<noteq> NotStarted \<and> worker s' \<noteq> Starting"
  using assms
proof (induction rule: sched_steps.induct)
  case (steps_snoc s ls s' l s'')
  have "worker s'' \<noteq> NotStarted \<and> worker s'' \<noteq> Starting"
    if "l = EnterRun \<or> worker s' \<noteq> NotStarted \<and> worker s' \<noteq> Starting"
    using steps_snoc(2) that
    by (induction rule: sched_step.induct) (auto split: sum.splits elim: notify.elims)
  with steps_snoc show ?case by auto
qed simp

end
