(* ===== verification/ExecutorRuns.thy ===== *)
theory ExecutorRuns imports ExecutorStop begin

text \<open>
  The step relation as a function: a command names the step and what it chooses (the
  outcome of an action, the arguments of a client's call, how much time passes), and
  \<open>exec_command\<close> computes the next state. It is sound and complete for the relation, so
  concrete runs are evaluated.
\<close>

datatype ('a, 'v, 'r) command =
    DoTick rat
  | DoStart
  | DoEnter
  | DoCheck rat
  | DoWake
  | DoBatch
  | DoEnd "'r outcome"
  | DoCount
  | DoSchedule rat int 'a "'v list" "(string \<times> 'v) list"
  | DoStop bool
  | DoCancel nat

definition exec_check ::
  "('v \<Rightarrow> 'v \<Rightarrow> bool res) \<Rightarrow> rat \<Rightarrow> ('a, 'v, 'r) sys \<Rightarrow> (label \<times> ('a, 'v, 'r) sys) option" where
  "exec_check olt t s =
     (case wait_turn (now s) (ex s) of
        (Return False, x) \<Rightarrow> Some (CheckStop, s\<lparr>ex := x, worker := Finished\<rparr>)
      | (Block delay, x) \<Rightarrow>
          Some (CheckBlock, s\<lparr>ex := x, worker := Sleeping (map_option (\<lambda>d. now s + d) delay) False\<rparr>)
      | (Return True, x) \<Rightarrow>
          if now s \<le> t then
            (case pop_expired olt t x of
               (Inr due, y) \<Rightarrow> Some (CheckDue, s\<lparr>ex := y, worker := Batch due, now := t\<rparr>)
             | (Inl e, y) \<Rightarrow> Some (CheckCrash, s\<lparr>ex := y, worker := Crashed e, now := t\<rparr>))
          else None)"

definition exec_batch :: "('a, 'v, 'r) sys \<Rightarrow> (label \<times> ('a, 'v, 'r) sys) option" where
  "exec_batch s =
     (case worker s of
        Batch [] \<Rightarrow> Some (BatchEnd, s\<lparr>worker := Checking\<rparr>)
      | Batch (t # ts) \<Rightarrow>
          Some (case begin_task t (ex s) of
             (Inl e, x) \<Rightarrow> (BeginCrash, s\<lparr>ex := x, worker := Crashed e\<rparr>)
           | (Inr False, x) \<Rightarrow> (SkipTask, s\<lparr>ex := x, worker := Batch ts\<rparr>)
           | (Inr True, x) \<Rightarrow>
               (BeginTask, s\<lparr>ex := x, worker := Executing t ts, begun := begun s @ [(t, now s)]\<rparr>))
      | _ \<Rightarrow> None)"

fun exec_command ::
  "('v \<Rightarrow> 'v \<Rightarrow> bool res) \<Rightarrow> ('a, 'v, 'r) command \<Rightarrow> ('a, 'v, 'r) sys \<Rightarrow> (label \<times> ('a, 'v, 'r) sys) option" where
  "exec_command olt (DoTick t) s = (if now s \<le> t then Some (Tick, s\<lparr>now := t\<rparr>) else None)"
| "exec_command olt DoStart s =
     (case worker s of NotStarted \<Rightarrow> Some (StartThread, s\<lparr>worker := Starting\<rparr>) | _ \<Rightarrow> None)"
| "exec_command olt DoEnter s =
     (case worker s of
        Starting \<Rightarrow> Some (EnterRun, s\<lparr>ex := run_prologue (ex s), worker := Checking\<rparr>) | _ \<Rightarrow> None)"
| "exec_command olt (DoCheck t) s = (case worker s of Checking \<Rightarrow> exec_check olt t s | _ \<Rightarrow> None)"
| "exec_command olt DoWake s =
     (case worker s of
        Sleeping deadline notified \<Rightarrow>
          if notified \<or> (case deadline of Some d \<Rightarrow> d \<le> now s | None \<Rightarrow> False)
          then Some (Wake, s\<lparr>worker := Checking\<rparr>) else None
      | _ \<Rightarrow> None)"
| "exec_command olt DoBatch s = exec_batch s"
| "exec_command olt (DoEnd out) s =
     (case worker s of
        Executing t ts \<Rightarrow>
          (case finish_task t out (ex s) of
             (r, x) \<Rightarrow>
               Some (EndTask, s\<lparr>ex := x, worker := Ending t (case r of Inl e \<Rightarrow> Some e | Inr _ \<Rightarrow> None) ts\<rparr>))
      | _ \<Rightarrow> None)"
| "exec_command olt DoCount s =
     (case worker s of
        Ending t None ts \<Rightarrow> Some (CountDown, s\<lparr>ex := count_down (ex s), worker := Batch ts\<rparr>)
      | Ending t (Some e) ts \<Rightarrow> Some (EndCrash, s\<lparr>ex := count_down (ex s), worker := Crashed e\<rparr>)
      | _ \<Rightarrow> None)"
| "exec_command olt (DoSchedule delay prio act arguments kws) s =
     (case schedule_delayed olt (now s) delay prio act arguments kws (ex s) of
        (r, x) \<Rightarrow>
          Some (Schedule, s\<lparr>ex := x,
            worker := (case r of Inl e \<Rightarrow> worker s | Inr f \<Rightarrow> notify (worker s))\<rparr>))"
| "exec_command olt (DoStop sync) s =
     (case stop sync (ex s) of (_, x) \<Rightarrow> Some (Stop sync, s\<lparr>ex := x, worker := notify (worker s)\<rparr>))"
| "exec_command olt (DoCancel f) s =
     (if f < next_future (ex s) then Some (Cancel, s\<lparr>ex := snd (cancel_future f (ex s))\<rparr>) else None)"

fun exec_run ::
  "('v \<Rightarrow> 'v \<Rightarrow> bool res) \<Rightarrow> ('a, 'v, 'r) command list \<Rightarrow> ('a, 'v, 'r) sys \<Rightarrow>
   (label list \<times> ('a, 'v, 'r) sys) option" where
  "exec_run olt [] s = Some ([], s)"
| "exec_run olt (c # cs) s =
     (case exec_command olt c s of
        None \<Rightarrow> None
      | Some (l, s') \<Rightarrow> map_option (\<lambda>(ls, s''). (l # ls, s'')) (exec_run olt cs s'))"

lemma exec_check_sound:
  "worker s = Checking \<Longrightarrow> exec_check olt t s = Some (l, s') \<Longrightarrow> sched_step olt s l s'"
  by (auto simp: exec_check_def intro: sched_step.intros
      split: prod.splits wait_outcome.splits bool.splits if_splits sum.splits)

lemma exec_batch_sound: "exec_batch s = Some (l, s') \<Longrightarrow> sched_step olt s l s'"
  by (auto simp: exec_batch_def intro: sched_step.intros
      split: worker.splits list.splits prod.splits sum.splits bool.splits)

lemma end_action_result:
  "worker s = Executing t ts \<Longrightarrow> finish_task t out (ex s) = (Inr (), x) \<Longrightarrow>
   sched_step olt s EndTask (s\<lparr>ex := x, worker := Ending t None ts\<rparr>)"
  "worker s = Executing t ts \<Longrightarrow> finish_task t out (ex s) = (Inl e, x) \<Longrightarrow>
   sched_step olt s EndTask (s\<lparr>ex := x, worker := Ending t (Some e) ts\<rparr>)"
  using sched_step.end_action [of s t ts out "Inr ()" x olt] sched_step.end_action [of s t ts out "Inl e" x olt]
  by simp_all

lemma exec_command_sound: "exec_command olt c s = Some (l, s') \<Longrightarrow> sched_step olt s l s'"
proof (cases c)
  case (DoSchedule delay prio act arguments kws)
  moreover assume "exec_command olt c s = Some (l, s')"
  ultimately show ?thesis by (auto intro: sched_step.schedule split: prod.splits)
qed (auto simp: exec_check_sound exec_batch_sound intro: sched_step.intros end_action_result sched_step.cancel_call [OF _ prod.collapse [symmetric]]
      split: if_splits worker.splits prod.splits sum.splits option.splits)

lemma exec_command_complete: "sched_step olt s l s' \<Longrightarrow> \<exists>c. exec_command olt c s = Some (l, s')"
proof (induction rule: sched_step.induct)
  case (tick s t)
  then show ?case by (intro exI [of _ "DoTick t"]) simp
next
  case (start_thread s)
  then show ?case by (intro exI [of _ DoStart]) simp
next
  case (enter_run s)
  then show ?case by (intro exI [of _ DoEnter]) simp
next
  case (check_stop s x)
  then show ?case by (intro exI [of _ "DoCheck (now s)"]) (simp add: exec_check_def)
next
  case (check_block s delay x)
  then show ?case by (intro exI [of _ "DoCheck (now s)"]) (simp add: exec_check_def)
next
  case (check_due s x t due y)
  then show ?case by (intro exI [of _ "DoCheck t"]) (simp add: exec_check_def)
next
  case (check_crash s x t e y)
  then show ?case by (intro exI [of _ "DoCheck t"]) (simp add: exec_check_def)
next
  case (wake s deadline notified)
  then show ?case by (intro exI [of _ DoWake]) auto
next
  case (batch_end s)
  then show ?case by (intro exI [of _ DoBatch]) (simp add: exec_batch_def)
next
  case (skip_task s t ts x)
  then show ?case by (intro exI [of _ DoBatch]) (simp add: exec_batch_def)
next
  case (begin_action s t ts x)
  then show ?case by (intro exI [of _ DoBatch]) (simp add: exec_batch_def)
next
  case (begin_crash s t ts e x)
  then show ?case by (intro exI [of _ DoBatch]) (simp add: exec_batch_def)
next
  case (end_action s t ts out r x)
  then show ?case by (intro exI [of _ "DoEnd out"]) simp
next
  case (count s t ts)
  then show ?case by (intro exI [of _ DoCount]) simp
next
  case (end_crash s t e ts)
  then show ?case by (intro exI [of _ DoCount]) simp
next
  case (schedule s delay prio act arguments kws r x)
  then show ?case by (intro exI [of _ "DoSchedule delay prio act arguments kws"]) simp
next
  case (stop_call sync s r x)
  then show ?case by (intro exI [of _ "DoStop sync"]) simp
next
  case (cancel_call f s b x)
  then show ?case by (intro exI [of _ "DoCancel f"]) simp
qed

lemma steps_Cons: "sched_step olt s l s' \<Longrightarrow> sched_steps olt s' ls s'' \<Longrightarrow> sched_steps olt s (l # ls) s''"
proof (rotate_tac, induction s' ls s'' rule: sched_steps.induct)
  case (steps_Nil t)
  then show ?case using sched_steps.steps_snoc [OF sched_steps.steps_Nil] by fastforce
next
  case (steps_snoc t ls t' l' t'')
  then show ?case using sched_steps.steps_snoc [of olt s "l # ls"] by simp
qed

lemma exec_run_sound: "exec_run olt cs s = Some (ls, s') \<Longrightarrow> sched_steps olt s ls s'"
proof (induction cs arbitrary: s ls)
  case Nil
  then show ?case by (auto intro: steps_Nil)
next
  case (Cons c cs)
  then obtain l s1 ls' where "exec_command olt c s = Some (l, s1)"
    "exec_run olt cs s1 = Some (ls', s')" "ls = l # ls'"
    by (auto split: option.splits)
  with Cons.IH exec_command_sound show ?case by (blast intro: steps_Cons)
qed

lemma exec_run_reachable: "exec_run olt cs (init_sys t0) = Some (ls, s) \<Longrightarrow> reachable olt s"
  unfolding reachable_def using exec_run_sound by blast

end
