(* ===== verification/TaskQueueSpec.thy ===== *)
theory TaskQueueSpec imports TaskQueue begin

text \<open>
  The abstract specification of \<^verbatim>\<open>TaskQueue\<close>: a list of tasks sorted by time and
  priority. As long as no two tasks of the queue have the same time and priority the heap
  implements it, and no operation raises. With two such tasks the comparison of the
  tasks themselves raises, and the properties below say what is left of the queue then.
\<close>

section \<open>The sorted task list\<close>

definition abs_queue :: "('a, 'v) task_queue \<Rightarrow> ('a, 'v) task list" where
  "abs_queue q = sort_key task_key (get_tasks q)"

definition spec_schedule :: "('a, 'v) task \<Rightarrow> ('a, 'v) task list \<Rightarrow> ('a, 'v) task list" where
  "spec_schedule t ts = insort_key task_key t ts"

definition spec_pop :: "rat \<Rightarrow> ('a, 'v) task list \<Rightarrow> ('a, 'v) task list \<times> ('a, 'v) task list" where
  "spec_pop timestamp ts =
     (takeWhile (\<lambda>t. abs_time t \<le> timestamp) ts, dropWhile (\<lambda>t. abs_time t \<le> timestamp) ts)"

definition spec_till_next :: "rat \<Rightarrow> ('a, 'v) task list \<Rightarrow> rat option" where
  "spec_till_next timestamp ts = (case ts of [] \<Rightarrow> None | t # _ \<Rightarrow> Some (abs_time t - timestamp))"

definition distinct_keys :: "('a, 'v) task_queue \<Rightarrow> bool" where
  "distinct_keys q \<longleftrightarrow> distinct (map task_key (get_tasks q))"

section \<open>The heap implements it\<close>

lemma set_abs_queue [simp]: "set (abs_queue q) = set (get_tasks q)"
  by (simp add: abs_queue_def)

lemma mset_abs_queue [simp]: "mset (abs_queue q) = mset (get_tasks q)"
  by (simp add: abs_queue_def)

lemma sorted_abs_queue: "sorted (map task_key (abs_queue q))"
  by (simp add: abs_queue_def)

text \<open>Lists sorted by distinct keys are determined by their elements.\<close>

lemma sorted_keys_unique:
  assumes "mset xs = mset ys" and "sorted (map task_key xs)" and "sorted (map task_key ys)"
    and "distinct (map task_key xs)"
  shows "xs = ys"
proof (rule map_sorted_distinct_set_unique)
  show "inj_on task_key (set xs \<union> set ys)"
    using assms(1,4) by (metis distinct_map mset_eq_setD sup.idem)
  show "distinct (map task_key ys)"
    using assms(1,4) distinct_map_mset by blast
qed (use assms in \<open>auto dest: mset_eq_setD\<close>)

lemma abs_queue_eqI:
  "mset (get_tasks q) = mset ts \<Longrightarrow> sorted (map task_key ts) \<Longrightarrow> distinct_keys q \<Longrightarrow> abs_queue q = ts"
  by (rule sorted_keys_unique)
    (use distinct_map_mset [of "abs_queue q" "get_tasks q" task_key] in
      \<open>simp_all add: sorted_abs_queue distinct_keys_def\<close>)

lemma pop_raises_tie:
  assumes ok: "queue_ok q" and pop: "pop_tasks_till_timestamp olt ts q = (Inl e, q')"
  shows "\<not> distinct_keys q"
proof -
  have "raises_on (item_lt olt) (set q) e"
    using pop_loop_raises [of olt ts "[]" q e q'] pop by (simp add: pop_tasks_till_timestamp_def)
  then obtain a b where ab: "a \<in> set q" "b \<in> set q" "item_lt olt a b = Inl e"
    by (auto simp: raises_on_def)
  define t u where "t = item_task a" and "u = item_task b"
  have eq: "a = item_of t" "b = item_of u"
    using ok ab(1,2) by (auto simp: queue_ok_def t_def u_def)
  have "task_key t = task_key u" using hq.lt_raises [OF ab(3)] by (simp add: eq)
  moreover have "t \<noteq> u" using ab(3) by (auto simp: eq item_lt_on_items)
  moreover have "t \<in> set (get_tasks q)" "u \<in> set (get_tasks q)"
    using ab(1,2) by (auto simp: get_tasks_def t_def u_def)
  ultimately show ?thesis
    by (auto simp: distinct_keys_def distinct_map inj_on_def)
qed

lemma pop_refines:
  assumes ok: "queue_ok q" and dis: "distinct_keys q"
  obtains due q' where "pop_tasks_till_timestamp olt ts q = (Inr due, q')"
    and "(due, abs_queue q') = spec_pop ts (abs_queue q)" and "queue_ok q'" and "distinct_keys q'"
proof -
  obtain r q' where pop: "pop_tasks_till_timestamp olt ts q = (r, q')" by force
  from pop_raises_tie [OF ok] dis obtain due where r: "r = Inr due"
    using pop by (cases r) blast+
  note popped = ok pop [unfolded r]
  have ms: "mset (get_tasks q) = mset due + mset (get_tasks q')"
    using tq.pop_splits [OF popped] .
  have late: "\<forall>t \<in> set (abs_queue q'). \<not> abs_time t \<le> ts"
    using tq.pop_rest [OF popped] by (auto simp: task_key_def not_le)
  have early: "\<forall>t \<in> set due. abs_time t \<le> ts"
    using tq.pop_due [OF popped] by (auto simp: task_key_def)
  have dis': "distinct_keys q'"
    using dis distinct_map_mset [of "get_tasks q" "due @ get_tasks q'" task_key] ms
    by (simp add: distinct_keys_def)
  have "sorted (map task_key (due @ abs_queue q'))"
    using tq.pop_sorted [OF popped] early late sorted_abs_queue [of q']
    by (fastforce simp: sorted_append less_eq_task_key_def task_key_def)
  then have "abs_queue q = due @ abs_queue q'"
    by (intro abs_queue_eqI) (use ms dis in simp_all)
  then have "(due, abs_queue q') = spec_pop ts (abs_queue q)"
    unfolding spec_pop_def by (simp only: takeWhile_split [OF early late] dropWhile_split [OF early late])
  then show thesis using that pop r tq.pop_ok [OF popped] dis' by blast
qed

lemma schedule_refines:
  assumes ok: "queue_ok q" and dis: "distinct_keys q"
    and new: "task_key t \<notin> task_key ` set (get_tasks q)"
    and sch: "schedule_task olt t q = (r, q')"
  shows "r = None \<and> abs_queue q' = spec_schedule t (abs_queue q) \<and> queue_ok q' \<and> distinct_keys q'"
proof -
  have ms: "mset (get_tasks q') = add_mset t (mset (get_tasks q))"
    using tq.schedule_adds [of olt t q] sch by simp
  have dis': "distinct_keys q'"
    using dis new distinct_map_mset [of "get_tasks q'" "t # get_tasks q" task_key] ms
    by (simp add: distinct_keys_def)
  have "r = None"
    using schedule_task_raises [of olt t q, OF _ ok] new sch by (cases r) (force simp: image_iff)+
  moreover have "abs_queue q' = spec_schedule t (abs_queue q)"
    by (rule abs_queue_eqI) (simp_all add: ms dis' spec_schedule_def sorted_insort_key sorted_abs_queue)
  ultimately show ?thesis
    using dis' schedule_task_ok [OF ok, of olt t] sch by simp
qed

lemma till_next_refines:
  assumes ok: "queue_ok q"
  shows "get_time_till_next_task now q = spec_till_next now (abs_queue q)"
proof (cases "get_time_till_next_task now q")
  case None
  then have "get_tasks q = []" using tq.till_None [OF ok] by blast
  then show ?thesis using None by (simp add: abs_queue_def spec_till_next_def)
next
  case (Some d)
  from tq.till_attained [OF ok Some] obtain t where
    t: "t \<in> set (get_tasks q)" "abs_time t = now + d" by (auto simp: task_key_def)
  then obtain u us where u: "abs_queue q = u # us"
    by (metis list.exhaust set_abs_queue list.set_intros(1) empty_iff list.set(1))
  then have "u \<in> set (get_tasks q)" by (metis set_abs_queue list.set_intros(1))
  then have "now + d \<le> abs_time u" using tq.till_least [OF ok Some] by (simp add: task_key_def)
  moreover have "task_key u \<le> task_key t"
    using sorted_abs_queue [of q] t(1) u set_abs_queue [of q] by auto
  then have "abs_time u \<le> abs_time t" by (auto simp: less_eq_task_key_def task_key_def)
  ultimately show ?thesis using Some t(2) u by (simp add: spec_till_next_def)
qed

end
