(* ===== verification/ExecutorProgress.thy ===== *)
theory ExecutorProgress imports ExecutorRuns TaskQueueSpec begin

text \<open>
  What the executor's worker gets done: a cancelled future stays cancelled, a batch can be
  executed to its end whatever its actions return or raise, and a worker asleep over a due
  task wakes up, fetches it and settles its future.
\<close>

section \<open>Cancellation stands\<close>

lemma cancelled_step:
  assumes "sched_step olt s l s'" and "sys_inv s" and "f < next_future (ex s)"
    and "cancelled (futures (ex s) f)"
  shows "cancelled (futures (ex s') f)"
  using assms
proof (induction rule: sched_step.induct)
  case (enter_run s)
  then show ?case by (simp add: run_prologue_def)
next
  case (check_stop s x)
  then show ?case by (simp add: wait_turn_effect(2) [OF check_stop(2)])
next
  case (check_block s delay x)
  then show ?case by (simp add: wait_turn_effect(2) [OF check_block(2)])
next
  case (check_due s x t due y)
  then show ?case
    by (auto simp: pop_expired_def wait_turn_effect(2) [OF check_due(2)] split: prod.splits)
next
  case (check_crash s x t e y)
  then show ?case
    by (auto simp: pop_expired_def wait_turn_effect(2) [OF check_crash(2)] split: prod.splits)
next
  case (skip_task s t ts x)
  from begin_task_cases [OF skip_task(2)] show ?case
    using skip_task by (auto simp: cancelled_def)
next
  case (begin_action s t ts x)
  from begin_task_cases [OF begin_action(2)] show ?case
    using begin_action by (auto simp: cancelled_def)
next
  case (begin_crash s t ts e x)
  then show ?case
    by (auto simp: begin_task_def Let_def cancelled_stands split: prod.splits sum.splits)
      (metis cancelled_stands(2) snd_conv)+
next
  case (end_action s t ts out r x)
  note run = sys_inv_executing [OF end_action(3,1)]
  from finish_effect [OF run end_action(2)] show ?case
    using end_action(5) run by (auto simp: cancelled_def)
next
  case (schedule s delay prio act arguments kws r x)
  from schedule_effect [OF sys_inv_unlocked [OF schedule(2)] schedule(1)] show ?case
    using schedule by auto
next
  case (stop_call sync s r x)
  then show ?case by (auto simp: stop_eq sys_inv_unlocked)
next
  case (cancel_call g s b x)
  with cancel_effect [OF cancel_call(2)] show ?case by auto
qed simp_all

lemma cancelled_steps:
  assumes "sched_steps olt s ls s'" and "reachable olt s" and "f < next_future (ex s)"
    and "cancelled (futures (ex s) f)"
  shows "cancelled (futures (ex s') f) \<and> f < next_future (ex s')"
  using assms
proof (induction rule: sched_steps.induct)
  case (steps_snoc s ls s' l s'')
  have "sys_inv s'" using steps_snoc.hyps(1) steps_snoc.prems(1) reachable_inv reachable_steps by blast
  with steps_snoc cancelled_step next_future_step show ?case
    by (meson order.strict_trans2)
qed simp

section \<open>A batch is executed to its end\<close>

text \<open>The steps the worker takes on its own, without a client and without the passing of time.\<close>

definition worker_label :: "label \<Rightarrow> bool" where
  "worker_label l \<longleftrightarrow> l \<in> {Wake, CheckDue, BatchEnd, SkipTask, BeginTask, EndTask, CountDown}"

lemma waiting_cases: "waiting st \<longleftrightarrow> st = PENDING \<or> st = CANCELLED"
  by (cases st) (simp_all add: waiting_def)

text \<open>The state of a task's future when its batch is over and the actions had outcomes \<open>out\<close>.\<close>

definition batch_result :: "(('a, 'v) task \<Rightarrow> 'r outcome) \<Rightarrow> 'r fstate \<Rightarrow> ('a, 'v) task \<Rightarrow> 'r fstate" where
  "batch_result out st t =
     (if cancelled st then CANCELLED_AND_NOTIFIED else FINISHED (outcome_value (out t)))"

lemma batch_result_settled [simp]: "settled (batch_result out st t)"
  by (simp add: batch_result_def)

lemma steps_append:
  "sched_steps olt s' ls' s'' \<Longrightarrow> sched_steps olt s ls s' \<Longrightarrow> sched_steps olt s (ls @ ls') s''"
proof (induction arbitrary: ls rule: sched_steps.induct)
  case (steps_snoc t ls1 t' l t'')
  then show ?case using sched_steps.steps_snoc [of olt s "ls @ ls1" t' l t''] by simp
qed simp

text \<open>One task of a batch: it is skipped, or begun and ended.\<close>

lemma one_task_runs:
  assumes inv: "sys_inv s" and w: "worker s = Batch (t # ts)"
    and out: "\<forall>e. out t \<noteq> RaisesBase e"
  obtains ls s' where "sched_steps olt s ls s'" and "\<forall>l \<in> set ls. worker_label l"
    and "worker s' = Batch ts" and "tasks (ex s') = tasks (ex s)"
    and "futures (ex s') = (futures (ex s))(future t := batch_result out (futures (ex s) (future t)) t)"
proof -
  have "waiting (futures (ex s) (future t))"
    using inv w by (simp add: sys_inv_def core_defs)
  then consider "futures (ex s) (future t) = PENDING" | "futures (ex s) (future t) = CANCELLED"
    by (auto simp: waiting_cases)
  then show thesis
  proof cases
    case 2
    let ?s = "s\<lparr>ex := (ex s)\<lparr>futures := (futures (ex s))(future t := CANCELLED_AND_NOTIFIED)\<rparr>, worker := Batch ts\<rparr>"
    have "sched_step olt s SkipTask ?s"
      by (rule sched_step.skip_task [OF w begin_task_cancelled [OF 2]])
    from steps_Cons [OF this steps_Nil] show thesis
      by (rule that) (simp_all add: 2 worker_label_def batch_result_def cancelled_def)
  next
    case 1
    let ?x = "(ex s)\<lparr>futures := (futures (ex s))(future t := RUNNING)\<rparr>"
    let ?s = "s\<lparr>ex := ?x, worker := Executing t ts, begun := begun s @ [(t, now s)]\<rparr>"
    have b: "sched_step olt s BeginTask ?s"
      by (rule sched_step.begin_action [OF w begin_task_pending [OF 1]])
    have run: "futures ?x (future t) = RUNNING" by simp
    obtain y where ended: "finish_task t (out t) ?x = (Inr (), y)"
      and y: "tasks y = tasks (ex s)" "futures y = (futures (ex s))(future t := FINISHED (outcome_value (out t)))"
      using out by (cases "out t") (simp_all add: finish_task_running [OF run])
    let ?s2 = "?s\<lparr>ex := y, worker := Ending t None ts\<rparr>"
    have e: "sched_step olt ?s EndTask ?s2"
      using sched_step.end_action [of ?s t ts "out t" "Inr ()" y olt] ended by simp
    have c: "sched_step olt ?s2 CountDown (?s2\<lparr>ex := count_down (ex ?s2), worker := Batch ts\<rparr>)"
      by (rule sched_step.count [where t = t]) simp
    from steps_Cons [OF b steps_Cons [OF e steps_Cons [OF c steps_Nil]]] show thesis
      by (rule that) (simp_all add: y 1 worker_label_def batch_result_def cancelled_def)
  qed
qed

lemma batch_runs:
  assumes "reachable olt s" and "worker s = Batch ts" and out: "\<forall>t e. out t \<noteq> RaisesBase e"
  shows "\<exists>ls s'. sched_steps olt s ls s' \<and> (\<forall>l \<in> set ls. worker_label l) \<and> worker s' = Batch [] \<and>
    tasks (ex s') = tasks (ex s) \<and>
    (\<forall>t \<in> set ts. futures (ex s') (future t) = batch_result out (futures (ex s) (future t)) t) \<and>
    (\<forall>f. f \<notin> future ` set ts \<longrightarrow> futures (ex s') f = futures (ex s) f)"
  using assms(1,2)
proof (induction ts arbitrary: s)
  case Nil
  then show ?case by (intro exI [of _ "[]"] exI [of _ s]) (simp add: steps_Nil)
next
  case (Cons t ts)
  have inv: "sys_inv s" using reachable_inv [OF Cons.prems(1)] .
  obtain ls1 s1 where s1: "sched_steps olt s ls1 s1" "\<forall>l \<in> set ls1. worker_label l"
    "worker s1 = Batch ts" "tasks (ex s1) = tasks (ex s)"
    "futures (ex s1) = (futures (ex s))(future t := batch_result out (futures (ex s) (future t)) t)"
    using one_task_runs [OF inv Cons.prems(2)] out by metis
  from Cons.IH [OF reachable_steps [OF s1(1) Cons.prems(1)] s1(3)] obtain ls2 s2 where s2:
    "sched_steps olt s1 ls2 s2" "\<forall>l \<in> set ls2. worker_label l" "worker s2 = Batch []"
    "tasks (ex s2) = tasks (ex s1)"
    "\<forall>u \<in> set ts. futures (ex s2) (future u) = batch_result out (futures (ex s1) (future u)) u"
    "\<forall>f. f \<notin> future ` set ts \<longrightarrow> futures (ex s2) f = futures (ex s1) f" by blast
  have ne: "future u \<noteq> future t" if "u \<in> set ts" for u
    using sys_inv_head_ids [OF inv, of t ts u] Cons.prems(2) that by simp
  have "future t \<notin> future ` set ts" using ne by force
  then have "futures (ex s2) (future u) = batch_result out (futures (ex s) (future u)) u" if "u \<in> set (t # ts)" for u
    using that ne s2(5,6) by (cases "u = t") (auto simp: s1(5))
  moreover have "futures (ex s2) f = futures (ex s) f" if "f \<notin> future ` set (t # ts)" for f
    using that s2(6) by (simp add: s1(5))
  ultimately show ?case
    using steps_append [OF s2(1) s1(1)] s1(2,4) s2(2,3,4)
    by (intro exI [of _ "ls1 @ ls2"] exI [of _ s2]) auto
qed

section \<open>A due task is settled\<close>

lemma sleeping_wakes:
  assumes reach: "reachable olt s" and w: "worker s = Sleeping d n"
    and t: "t \<in> set (get_tasks (tasks (ex s)))" and due: "abs_time t \<le> now s"
  shows "sched_step olt s Wake (s\<lparr>worker := Checking\<rparr>)"
proof (rule sched_step.wake [OF w])
  have "n \<or> (\<exists>d'. d = Some d' \<and> d' \<le> abs_time t)"
    using reachable_sleep [OF reach] w t
    by (cases n; cases d) (auto simp: sleep_inv_def)
  then show "n \<or> (\<exists>d'. d = Some d' \<and> d' \<le> now s)" using due by fastforce
qed

lemma checking_fetches:
  assumes reach: "reachable olt s" and w: "worker s = Checking" and st: "status (ex s) = Running"
    and t: "t \<in> set (get_tasks (tasks (ex s)))" and due: "abs_time t \<le> now s"
    and dis: "distinct_keys (tasks (ex s))"
  obtains ts q where
    "sched_step olt s CheckDue (s\<lparr>ex := (ex s)\<lparr>tasks := q\<rparr>, worker := Batch ts, now := now s\<rparr>)"
    and "set ts = {u \<in> set (get_tasks (tasks (ex s))). abs_time u \<le> now s}"
proof -
  have ok: "queue_ok (tasks (ex s))"
    using reachable_inv [OF reach] w by (intro sys_inv_queue_ok) (simp_all add: crashed_def)
  have "\<exists>d. get_time_till_next_task (now s) (tasks (ex s)) = Some d \<and> d \<le> 0"
    unfolding tq.till_due_iff [OF ok] using t due by (auto simp: task_key_def)
  then have turn: "wait_turn (now s) (ex s) = (Return True, ex s)"
    using st by (auto simp: wait_turn_def)
  obtain ts q where pop: "pop_tasks_till_timestamp olt (now s) (tasks (ex s)) = (Inr ts, q)"
    using pop_refines [OF ok dis] by metis
  then have "pop_expired olt (now s) (ex s) = (Inr ts, (ex s)\<lparr>tasks := q\<rparr>)"
    by (simp add: pop_expired_def)
  from sched_step.check_due [OF w turn order_refl this] show thesis
  proof (rule that)
    show "set ts = {u \<in> set (get_tasks (tasks (ex s))). abs_time u \<le> now s}"
      using tq.pop_set [OF ok pop] tq.pop_due [OF ok pop] tq.pop_rest [OF ok pop]
      by (fastforce simp: task_key_def)
  qed
qed

text \<open>From sleep to the end of the batch: every due task's future is settled.\<close>

lemma sleeping_settles:
  assumes reach: "reachable olt s" and w: "worker s = Sleeping d n" and st: "status (ex s) = Running"
    and t: "t \<in> set (get_tasks (tasks (ex s)))" and due: "abs_time t \<le> now s"
    and dis: "distinct_keys (tasks (ex s))" and out: "\<forall>t e. out t \<noteq> RaisesBase e"
  obtains ls s' where "sched_steps olt s ls s'" and "\<forall>l \<in> set ls. worker_label l"
    and "worker s' = Checking"
    and "\<forall>u \<in> set (get_tasks (tasks (ex s))). abs_time u \<le> now s \<longrightarrow>
      futures (ex s') (future u) = batch_result out (futures (ex s) (future u)) u"
proof -
  let ?s1 = "s\<lparr>worker := Checking\<rparr>"
  have wake: "sched_step olt s Wake ?s1" using sleeping_wakes [OF reach w t due] .
  note reach1 = reachable_step [OF reach wake]
  obtain ts q where fetch: "sched_step olt ?s1 CheckDue (?s1\<lparr>ex := (ex ?s1)\<lparr>tasks := q\<rparr>, worker := Batch ts, now := now ?s1\<rparr>)"
    and ts: "set ts = {u \<in> set (get_tasks (tasks (ex ?s1))). abs_time u \<le> now ?s1}"
    by (rule checking_fetches [OF reach1, of t]) (use st t due dis in simp_all)
  define s2 where "s2 = ?s1\<lparr>ex := (ex ?s1)\<lparr>tasks := q\<rparr>, worker := Batch ts, now := now ?s1\<rparr>"
  note fetch = fetch [folded s2_def]
  have reach2: "reachable olt s2" using reachable_step [OF reach1 fetch] .
  have s2: "worker s2 = Batch ts" "futures (ex s2) = futures (ex s)" by (simp_all add: s2_def)
  obtain ls s3 where run: "sched_steps olt s2 ls s3" "\<forall>l \<in> set ls. worker_label l" "worker s3 = Batch []"
    "\<forall>u \<in> set ts. futures (ex s3) (future u) = batch_result out (futures (ex s2) (future u)) u"
    using batch_runs [OF reach2 s2(1) out] by metis
  have fin: "sched_step olt s3 BatchEnd (s3\<lparr>worker := Checking\<rparr>)"
    by (rule sched_step.batch_end [OF run(3)])
  show thesis
  proof (rule that)
    show "sched_steps olt s (Wake # CheckDue # ls @ [BatchEnd]) (s3\<lparr>worker := Checking\<rparr>)"
      by (intro steps_Cons [OF wake] steps_Cons [OF fetch] sched_steps.steps_snoc [OF run(1) fin])
  qed (use run(2,4) s2(2) ts in \<open>auto simp: worker_label_def\<close>)
qed

end
