(* ===== verification/SchedulerProperties.thy ===== *)
theory SchedulerProperties imports ExecutorProgress begin

text \<open>
  The properties of the scheduler: what \<^verbatim>\<open>TaskQueue\<close> returns, what
  \<^verbatim>\<open>SingleThreadExecutor\<close> guarantees in every interleaving of its worker and its
  clients, and the runs in which a task is lost. A witness applies each property that has
  hypotheses to a concrete queue or a concrete run.
\<close>

section \<open>Concrete inputs\<close>

text \<open>Objects without an order of their own, as plain Python objects are.\<close>

definition unordered :: "nat \<Rightarrow> nat \<Rightarrow> bool res" where
  "unordered a b = Inl TypeError"

definition sample_task :: "rat \<Rightarrow> int \<Rightarrow> nat \<Rightarrow> (nat, nat) task" where
  "sample_task tm p f =
     \<lparr>abs_time = tm, priority = p, action = f, args = [], kwargs = [], future = f\<rparr>"

definition sample_queue :: "(nat, nat) task_queue" where
  "sample_queue =
     snd (schedule_task unordered (sample_task 2 0 0)
       (snd (schedule_task unordered (sample_task 1 5 1)
          (snd (schedule_task unordered (sample_task 1 0 2) new_queue)))))"

lemma sample_queue_ok: "queue_ok sample_queue"
  unfolding sample_queue_def by (intro schedule_task_ok queue_ok_new)

lemma sample_queue_tasks:
  "sample_queue = map item_of [sample_task 1 0 2, sample_task 1 5 1, sample_task 2 0 0]"
  by code_simp

lemma sample_queue_keys: "distinct_keys sample_queue"
  unfolding distinct_keys_def sample_queue_tasks by code_simp

section \<open>The queue\<close>

text \<open>
  C6: \<open>pop_tasks_till_timestamp\<close> on a queue whose tasks have different times or priorities
  never raises: it returns exactly the tasks due by the timestamp, in the order of time and
  priority, and leaves a queue that holds exactly the later tasks.
\<close>

theorem queue_pop_refines:
  assumes "queue_ok q" and "distinct_keys q"
  shows "\<exists>due q'. pop_tasks_till_timestamp olt ts q = (Inr due, q') \<and>
    (due, abs_queue q') = spec_pop ts (abs_queue q) \<and> queue_ok q' \<and> distinct_keys q'"
  using pop_refines [OF assms] by metis

theorem queue_pop_refines_witness:
  "\<exists>due q'. pop_tasks_till_timestamp unordered 1 sample_queue = (Inr due, q') \<and>
    (due, abs_queue q') = spec_pop 1 (abs_queue sample_queue) \<and> queue_ok q' \<and> distinct_keys q'"
  by (rule queue_pop_refines [OF sample_queue_ok sample_queue_keys])

text \<open>
  C20: \<open>schedule_task\<close> of a task whose time and priority no queued task has never raises, and
  the new queue is the old one with the task inserted at its place in the order.
\<close>

theorem queue_schedule_refines:
  assumes "queue_ok q" and "distinct_keys q" and "task_key t \<notin> task_key ` set (get_tasks q)"
  shows "\<exists>q'. schedule_task olt t q = (None, q') \<and>
    abs_queue q' = spec_schedule t (abs_queue q) \<and> queue_ok q' \<and> distinct_keys q'"
  using schedule_refines [OF assms, of olt] by (metis surj_pair)

theorem queue_schedule_refines_witness:
  "\<exists>q'. schedule_task unordered (sample_task 3 0 3) sample_queue = (None, q') \<and>
    abs_queue q' = spec_schedule (sample_task 3 0 3) (abs_queue sample_queue) \<and>
    queue_ok q' \<and> distinct_keys q'"
proof (rule queue_schedule_refines [OF sample_queue_ok sample_queue_keys])
  show "task_key (sample_task 3 0 3) \<notin> task_key ` set (get_tasks sample_queue)"
    unfolding sample_queue_tasks by code_simp
qed

text \<open>
  C21: whatever the tasks are, equal keys included, a pop that returns gives exactly the due
  tasks in key order and keeps exactly the others; and a pop that raises found two tasks of
  equal time and priority.
\<close>

theorem queue_pop_exact:
  assumes "queue_ok q"
  shows "case pop_tasks_till_timestamp olt ts q of
      (Inr due, q') \<Rightarrow>
        mset due = filter_mset (\<lambda>t. abs_time t \<le> ts) (mset (get_tasks q)) \<and>
        mset (get_tasks q') = filter_mset (\<lambda>t. ts < abs_time t) (mset (get_tasks q)) \<and>
        sorted (map task_key due) \<and> queue_ok q'
    | (Inl e, q') \<Rightarrow> \<not> distinct_keys q \<and> mset (get_tasks q') \<subseteq># mset (get_tasks q)"
proof (cases "pop_tasks_till_timestamp olt ts q")
  case (Pair r q')
  show ?thesis
  proof (cases r)
    case (Inl e)
    note pop = assms Pair [unfolded Inl]
    show ?thesis using pop_raises_tie [OF pop] tq.pop_raises_keeps [OF pop] by (simp add: Pair Inl)
  next
    case (Inr due)
    note pop = assms Pair [unfolded Inr]
    show ?thesis
      using tq.pop_exact [OF pop] tq.pop_sorted [OF pop] tq.pop_ok [OF pop]
      by (simp add: Pair Inr task_key_def)
  qed
qed

theorem queue_pop_exact_witness:
  "case pop_tasks_till_timestamp unordered 1 sample_queue of
      (Inr due, q') \<Rightarrow>
        mset due = filter_mset (\<lambda>t. abs_time t \<le> 1) (mset (get_tasks sample_queue)) \<and>
        mset (get_tasks q') = filter_mset (\<lambda>t. 1 < abs_time t) (mset (get_tasks sample_queue)) \<and>
        sorted (map task_key due) \<and> queue_ok q'
    | (Inl e, q') \<Rightarrow> \<not> distinct_keys sample_queue \<and>
        mset (get_tasks q') \<subseteq># mset (get_tasks sample_queue)"
  by (rule queue_pop_exact [OF sample_queue_ok])



section \<open>Concrete runs\<close>

text \<open>Where a list of commands leads from the initial state; lists that cannot be run have no such state.\<close>

definition run_from :: "(nat, nat, nat) sys \<Rightarrow> (nat, nat, nat) command list \<Rightarrow> (nat, nat, nat) sys" where
  "run_from s cs = snd (the (exec_run unordered cs s))"

definition can_run :: "(nat, nat, nat) sys \<Rightarrow> (nat, nat, nat) command list \<Rightarrow> label list \<Rightarrow> bool" where
  "can_run s cs ls \<longleftrightarrow> map_option fst (exec_run unordered cs s) = Some ls"

lemma run_from_steps: "can_run s cs ls \<Longrightarrow> sched_steps unordered s ls (run_from s cs)"
  by (auto simp: can_run_def run_from_def intro: exec_run_sound)

lemma run_from_step: "can_run s [c] [l] \<Longrightarrow> sched_step unordered s l (run_from s [c])"
  by (auto simp: can_run_def run_from_def intro: exec_command_sound split: option.splits)

lemma run_reachable: "can_run (init_sys 0) cs ls \<Longrightarrow> reachable unordered (run_from (init_sys 0) cs)"
  unfolding reachable_def by (blast dest: run_from_steps)

lemma run_from_reachable:
  "reachable unordered s \<Longrightarrow> can_run s cs ls \<Longrightarrow> reachable unordered (run_from s cs)"
  using run_from_steps reachable_steps by blast

text \<open>The worker starts, two tasks are scheduled, one for later, and the worker goes to sleep.\<close>

definition sleeping_sys :: "(nat, nat, nat) sys" where
  "sleeping_sys = run_from (init_sys 0)
     [DoStart, DoEnter, DoSchedule 1 0 7 [] [], DoSchedule 9 0 8 [] [], DoCheck 0]"

lemma sleeping_reachable: "reachable unordered sleeping_sys"
  unfolding sleeping_sys_def
  by (rule run_reachable [of _ "[StartThread, EnterRun, Schedule, Schedule, CheckBlock]"]) code_simp

text \<open>The first task's time comes: the worker wakes up and begins it.\<close>

definition busy_sys :: "(nat, nat, nat) sys" where
  "busy_sys = run_from sleeping_sys [DoTick 1, DoWake, DoCheck 1, DoBatch]"

lemma busy_reachable: "reachable unordered busy_sys"
  unfolding busy_sys_def
  by (rule run_from_reachable [OF sleeping_reachable, of _ "[Tick, Wake, CheckDue, BeginTask]"]) code_simp

lemma busy_begun: "begun busy_sys = [(new_task 0 1 0 7 [] [] 0, 1)]"
  by code_simp

section \<open>The executor\<close>

text \<open>
  C3: in every interleaving of the worker and its clients, an action is begun at most once,
  never before its time, and only when its future was not cancelled.
\<close>

theorem executor_begins_once:
  assumes "reachable olt s"
  shows "distinct (map (\<lambda>(t, _). future t) (begun s)) \<and>
    (\<forall>(t, time) \<in> set (begun s). abs_time t \<le> time \<and> \<not> cancelled (futures (ex s) (future t)))"
  using reachable_inv [OF assms]
  by (fastforce simp: sys_inv_def core_defs fstate_preds split: fstate.splits)

theorem executor_begins_once_witness:
  "begun busy_sys = [(new_task 0 1 0 7 [] [] 0, 1)] \<and>
   distinct (map (\<lambda>(t, _). future t) (begun busy_sys)) \<and> \<not> cancelled (futures (ex busy_sys) 0)"
  using busy_begun executor_begins_once [OF busy_reachable] by simp

text \<open>
  C13: a future that a client has cancelled in time stays cancelled, and its action is not
  begun in any continuation of the run, whatever the other clients do.
\<close>

theorem executor_cancelled_never_begins:
  assumes "reachable olt s" and "f < next_future (ex s)" and "cancelled (futures (ex s) f)"
    and "sched_steps olt s ls s'"
  shows "cancelled (futures (ex s') f) \<and> f \<notin> future ` fst ` set (begun s')"
proof -
  have c: "cancelled (futures (ex s') f)"
    using cancelled_steps [OF assms(4,1,2,3)] by simp
  have "begun_inv (ex s') (begun s')"
    using reachable_inv [OF reachable_steps [OF assms(4,1)]] by (simp add: sys_inv_def core_inv_def)
  then have "started (futures (ex s') (future t))" if "t \<in> fst ` set (begun s')" for t
    using that by (fastforce simp: begun_inv_def)
  with c show ?thesis by (fastforce simp: fstate_preds split: fstate.splits)
qed

definition cancelled_sys :: "(nat, nat, nat) sys" where
  "cancelled_sys = run_from sleeping_sys [DoCancel 0]"

theorem executor_cancelled_never_begins_witness:
  "\<exists>s'. sched_steps unordered cancelled_sys [Tick, Wake, CheckDue, SkipTask] s' \<and>
     cancelled (futures (ex s') 0) \<and> 0 \<notin> future ` fst ` set (begun s')"
proof -
  have reach: "reachable unordered cancelled_sys"
    unfolding cancelled_sys_def
    by (rule run_from_reachable [OF sleeping_reachable, of _ "[Cancel]"]) code_simp
  have run: "can_run cancelled_sys [DoTick 1, DoWake, DoCheck 1, DoBatch] [Tick, Wake, CheckDue, SkipTask]"
    and f: "0 < next_future (ex cancelled_sys)" "cancelled (futures (ex cancelled_sys) 0)"
    by code_simp+
  from executor_cancelled_never_begins [OF reach f run_from_steps [OF run]] run_from_steps [OF run]
  show ?thesis by blast
qed

text \<open>
  C4: no task is lost: unless an exception has ended the worker, every future that
  \<open>schedule_delayed\<close> handed out, whose task is neither finished nor known to be cancelled,
  belongs to a task in the queue or in the worker's current batch.
\<close>

theorem executor_keeps_tasks:
  assumes "reachable olt s" and "\<not> crashed (worker s)" and "f < next_future (ex s)"
  shows "settled (futures (ex s) f) \<or>
    (\<exists>t \<in> set (get_tasks (tasks (ex s)) @ held_tasks (worker s)). future t = f)"
  using reachable_kept [OF assms(1)] assms(2,3) by (auto simp: kept_inv_def own_tasks_def)

theorem executor_keeps_tasks_witness:
  "settled (futures (ex busy_sys) 1) \<or>
    (\<exists>t \<in> set (get_tasks (tasks (ex busy_sys)) @ held_tasks (worker busy_sys)). future t = 1)"
proof (rule executor_keeps_tasks [OF busy_reachable])
  show "\<not> crashed (worker busy_sys)" and "1 < next_future (ex busy_sys)"
    by code_simp+
qed

text \<open>
  C12: no wake-up is missed: while the worker sleeps without having been notified, the
  executor is not stopped, its timeout ends at the time of the earliest task, and it sleeps
  without a timeout only when the queue is empty.
\<close>

theorem executor_no_missed_wakeup:
  assumes "reachable olt s" and "worker s = Sleeping deadline False"
  shows "status (ex s) \<noteq> Stopped \<and>
    (deadline = None \<longleftrightarrow> empty (tasks (ex s))) \<and>
    (\<forall>d. deadline = Some d \<longrightarrow>
       (\<exists>t \<in> set (get_tasks (tasks (ex s))). abs_time t = d) \<and>
       (\<forall>t \<in> set (get_tasks (tasks (ex s))). d \<le> abs_time t))"
  using reachable_sleep [OF assms(1)] assms(2) by (auto simp: sleep_inv_def empty_def)

theorem executor_no_missed_wakeup_witness:
  "\<exists>deadline. worker sleeping_sys = Sleeping deadline False \<and> status (ex sleeping_sys) \<noteq> Stopped \<and>
    (deadline = None \<longleftrightarrow> empty (tasks (ex sleeping_sys)))"
proof -
  have "worker sleeping_sys = Sleeping (Some 1) False" by code_simp
  from executor_no_missed_wakeup [OF sleeping_reachable this] this show ?thesis by blast
qed


definition late_sys :: "(nat, nat, nat) sys" where
  "late_sys = run_from sleeping_sys [DoTick 9]"


section \<open>Stopping\<close>

text \<open>
  C7: after \<open>stop(sync=True)\<close> called while the worker is between two batches, and as long as
  the executor is not stopped or run once more, the worker returns only when every task
  that was queued at the call is finished or cancelled.
\<close>

theorem executor_sync_stop_completes:
  assumes "reachable olt s" and "worker s = Checking \<or> worker s = Sleeping d n"
    and "sched_step olt s (Stop True) s1" and "sched_steps olt s1 ls s2"
    and "\<forall>l \<in> set ls. after_stop l" and "worker s2 = Finished"
    and "t \<in> set (get_tasks (tasks (ex s)))"
  shows "settled (futures (ex s2) (future t)) \<or> cancelled (futures (ex s2) (future t))"
  by (rule sync_stop_completes [OF assms])

text \<open>The worker of \<open>sleeping_sys\<close> is stopped and works off both tasks.\<close>

definition stopped_sys :: "(nat, nat, nat) sys" where
  "stopped_sys = run_from sleeping_sys [DoStop True]"

definition drain_commands :: "(nat, nat, nat) command list" where
  "drain_commands =
     [DoWake, DoCheck 0, DoTick 1, DoWake, DoCheck 1, DoBatch, DoEnd (Returns 5), DoCount, DoBatch, DoCheck 1,
      DoTick 9, DoWake, DoCheck 9, DoBatch, DoEnd (Raises (AppError 3)), DoCount, DoBatch, DoCheck 9]"

definition drain_labels :: "label list" where
  "drain_labels =
     [Wake, CheckBlock, Tick, Wake, CheckDue, BeginTask, EndTask, CountDown, BatchEnd, CheckBlock,
      Tick, Wake, CheckDue, BeginTask, EndTask, CountDown, BatchEnd, CheckStop]"

theorem executor_sync_stop_completes_witness:
  "worker (run_from stopped_sys drain_commands) = Finished \<and>
   (settled (futures (ex (run_from stopped_sys drain_commands)) 1) \<or>
    cancelled (futures (ex (run_from stopped_sys drain_commands)) 1))"
proof -
  have stop: "can_run sleeping_sys [DoStop True] [Stop True]"
    and run: "can_run stopped_sys drain_commands drain_labels"
    and idle: "worker sleeping_sys = Checking \<or> worker sleeping_sys = Sleeping (Some 1) False"
    and fin: "worker (run_from stopped_sys drain_commands) = Finished"
    and t: "new_task 0 9 0 8 [] [] 1 \<in> set (get_tasks (tasks (ex sleeping_sys)))"
    by code_simp+
  have "\<forall>l \<in> set drain_labels. after_stop l"
    by (simp add: drain_labels_def after_stop_def)
  from executor_sync_stop_completes [OF sleeping_reachable idle
      run_from_step [OF stop, folded stopped_sys_def] run_from_steps [OF run] this fin t] fin
  show ?thesis by simp
qed

definition stop_in_batch :: "(nat, nat, nat) command list" where
  "stop_in_batch =
     [DoStart, DoEnter, DoSchedule 0 0 7 [] [], DoSchedule 10 0 8 [] [], DoCheck 0, DoBatch,
      DoStop True, DoEnd (Returns 1), DoCount, DoBatch, DoCheck 0]"




section \<open>Scheduling\<close>



definition tie_commands :: "(nat, nat, nat) command list" where
  "tie_commands =
     [DoStart, DoEnter, DoSchedule 0 0 1 [] [], DoSchedule 1 0 2 [] [], DoSchedule 1 0 3 [] [], DoCheck 1,
      DoSchedule 0 0 4 [] []]"


section \<open>One batch\<close>


text \<open>An action that stops the executor and raises.\<close>

definition failing_action ::
  "(nat, nat) task \<Rightarrow> (nat, nat, nat) executor \<Rightarrow> nat outcome \<times> (nat, nat, nat) executor" where
  "failing_action t s = (Raises (AppError (action t)), s\<lparr>status := Stopped\<rparr>)"

definition batch_executor :: "(nat, nat, nat) executor" where
  "batch_executor = new_executor\<lparr>tasks := sample_queue, locked := True, status := Running, next_future := 3\<rparr>"



end
