(* ===== verification/AddressHelpers.thy ===== *)
theory AddressHelpers imports Prelude begin

text \<open>
  \<^verbatim>\<open>lwip_py/utility/address_helpers.py\<close>: IPv4 addresses between dotted
  text and the integer that lwIP stores (first octet in the lowest byte). The standard
  library calls the two functions rest on (\<^verbatim>\<open>str.split\<close>,
  \<^verbatim>\<open>str.join\<close>, \<^verbatim>\<open>int(text)\<close>,
  \<^verbatim>\<open>str(number)\<close>) are written out for ASCII text. A character beyond ASCII
  is no digit and no blank here, where Python also takes Unicode digits and blanks.
\<close>

section \<open>The standard library calls\<close>

text \<open>\<^verbatim>\<open>text.split(c)\<close> for a one-character separator and
  \<^verbatim>\<open>sep.join(parts)\<close>.\<close>

fun str_split :: "char \<Rightarrow> string \<Rightarrow> string list" where
  "str_split c [] = [[]]"
| "str_split c (x # xs) =
     (if x = c then [] # str_split c xs
      else (case str_split c xs of [] \<Rightarrow> [[x]] | w # ws \<Rightarrow> (x # w) # ws))"

fun str_join :: "string \<Rightarrow> string list \<Rightarrow> string" where
  "str_join sep [] = []"
| "str_join sep [w] = w"
| "str_join sep (w # ws) = w @ sep @ str_join sep ws"

lemma str_split_not_Nil [simp]: "str_split c xs \<noteq> []"
  by (induction xs) (auto split: list.splits)

lemma str_split_no_sep: "c \<notin> set xs \<Longrightarrow> str_split c xs = [xs]"
  by (induction xs) auto

lemma str_split_append_sep:
  "c \<notin> set xs \<Longrightarrow> str_split c (xs @ c # ys) = xs # str_split c ys"
  by (induction xs) auto

lemma str_split_join:
  "ws \<noteq> [] \<Longrightarrow> (\<forall>w \<in> set ws. c \<notin> set w) \<Longrightarrow> str_split c (str_join [c] ws) = ws"
  by (induction "[c]" ws rule: str_join.induct)
    (auto simp: str_split_no_sep str_split_append_sep)

lemma str_join_split: "str_join [c] (str_split c xs) = xs"
proof (induction xs)
  case (Cons x xs)
  then show ?case
    by (cases "str_split c xs"; cases "tl (str_split c xs)") auto
qed simp

text \<open>
  \<^verbatim>\<open>int(text)\<close> in base ten: blanks around the literal, a sign, digits with
  single underscores between them; anything else raises \<open>ValueError\<close>. (The limit of
  4300 digits that newer interpreters have is not modelled.)
\<close>

definition is_blank :: "char \<Rightarrow> bool" where
  "is_blank c \<longleftrightarrow> (let n = (of_char c :: nat) in n = 32 \<or> (9 \<le> n \<and> n \<le> 13))"

definition is_digit :: "char \<Rightarrow> bool" where
  "is_digit c \<longleftrightarrow> (let n = (of_char c :: nat) in 48 \<le> n \<and> n \<le> 57)"

definition digit_val :: "char \<Rightarrow> int" where
  "digit_val c = int (of_char c) - 48"

text \<open>\<open>prev\<close>: the character before is a digit.\<close>

fun scan_digits :: "int \<Rightarrow> bool \<Rightarrow> string \<Rightarrow> int option" where
  "scan_digits acc prev [] = (if prev then Some acc else None)"
| "scan_digits acc prev (c # cs) =
     (if is_digit c then scan_digits (10 * acc + digit_val c) True cs
      else if c = CHR ''_'' \<and> prev then scan_digits acc False cs
      else None)"

definition scan_signed :: "string \<Rightarrow> int option" where
  "scan_signed s =
     (case s of
        [] \<Rightarrow> None
      | c # cs \<Rightarrow>
          if c = CHR ''-'' then map_option uminus (scan_digits 0 False cs)
          else if c = CHR ''+'' then scan_digits 0 False cs
          else scan_digits 0 False s)"

definition str_strip :: "string \<Rightarrow> string" where
  "str_strip s = rev (dropWhile is_blank (rev (dropWhile is_blank s)))"

definition py_int :: "string \<Rightarrow> int res" where
  "py_int s = (case scan_signed (str_strip s) of None \<Rightarrow> Inl ValueError | Some n \<Rightarrow> Inr n)"

text \<open>\<^verbatim>\<open>str(number)\<close>.\<close>

definition digit_char :: "nat \<Rightarrow> char" where
  "digit_char d = char_of (48 + d)"

fun str_nat :: "nat \<Rightarrow> string" where
  "str_nat n = (if n < 10 then [digit_char n] else str_nat (n div 10) @ [digit_char (n mod 10)])"

declare str_nat.simps [simp del]

definition py_str :: "int \<Rightarrow> string" where
  "py_str n = (if n < 0 then CHR ''-'' # str_nat (nat (- n)) else str_nat (nat n))"

subsection \<open>Reading back what was printed\<close>

lemma of_char_digit_char: "d < 10 \<Longrightarrow> (of_char (digit_char d) :: nat) = 48 + d"
  by (simp add: digit_char_def of_char_of)

lemma is_digit_digit_char: "d < 10 \<Longrightarrow> is_digit (digit_char d)"
  by (simp add: is_digit_def of_char_digit_char)

lemma digit_val_digit_char: "d < 10 \<Longrightarrow> digit_val (digit_char d) = int d"
  by (simp add: digit_val_def of_char_digit_char)

lemma is_digit_not_blank: "is_digit c \<Longrightarrow> \<not> is_blank c"
  by (auto simp: is_digit_def is_blank_def Let_def)

lemma is_digit_not_special: "is_digit c \<Longrightarrow> c \<noteq> CHR ''-'' \<and> c \<noteq> CHR ''+'' \<and> c \<noteq> CHR ''.''"
  by (auto simp: is_digit_def Let_def)

lemma scan_digits_str_nat:
  "scan_digits acc prev (str_nat n @ rest) =
   scan_digits (acc * 10 ^ length (str_nat n) + int n) True rest"
proof (induction n arbitrary: acc prev rest rule: str_nat.induct)
  case (1 n)
  show ?case
  proof (cases "n < 10")
    case True
    then show ?thesis
      by (simp add: str_nat.simps [of n] is_digit_digit_char digit_val_digit_char mult.commute)
  next
    case False
    have split: "int n = 10 * int (n div 10) + int (n mod 10)"
      by (simp add: zdiv_int zmod_int)
    have "scan_digits acc prev (str_nat n @ rest) =
        scan_digits acc prev (str_nat (n div 10) @ digit_char (n mod 10) # rest)"
      using False by (simp add: str_nat.simps [of n])
    also have "\<dots> = scan_digits
        (10 * (acc * 10 ^ length (str_nat (n div 10)) + int (n div 10)) + int (n mod 10)) True rest"
      using False by (simp add: "1.IH" is_digit_digit_char digit_val_digit_char)
    also have "10 * (acc * 10 ^ length (str_nat (n div 10)) + int (n div 10)) + int (n mod 10)
        = acc * 10 ^ length (str_nat n) + int n"
      using False split by (simp add: str_nat.simps [of n] algebra_simps)
    finally show ?thesis .
  qed
qed

lemma str_nat_digits: "c \<in> set (str_nat n) \<Longrightarrow> is_digit c"
proof (induction n rule: str_nat.induct)
  case (1 n)
  then show ?case
    by (cases "n < 10") (auto simp: str_nat.simps [of n] is_digit_digit_char)
qed

lemma str_nat_not_Nil [simp]: "str_nat n \<noteq> []"
  by (subst str_nat.simps) simp

lemma str_strip_id: "\<forall>c \<in> set s. \<not> is_blank c \<Longrightarrow> str_strip s = s"
proof -
  assume no: "\<forall>c \<in> set s. \<not> is_blank c"
  have "dropWhile is_blank xs = xs" if "\<forall>c \<in> set xs. \<not> is_blank c" for xs
    using that by (cases xs) auto
  from this [of s] this [of "rev s"] no show ?thesis by (simp add: str_strip_def)
qed

lemma scan_signed_str_nat: "scan_signed (str_nat n) = Some (int n)"
proof -
  obtain c cs where eq: "str_nat n = c # cs"
    by (cases "str_nat n") auto
  then have "is_digit c" using str_nat_digits [of c n] by simp
  then have "scan_signed (str_nat n) = scan_digits 0 False (str_nat n)"
    using is_digit_not_special [of c] by (simp add: scan_signed_def eq)
  then show ?thesis
    using scan_digits_str_nat [of 0 False n "[]"] by simp
qed

lemma py_int_py_str: "py_int (py_str n) = Inr n"
proof -
  have strip: "str_strip (str_nat k) = str_nat k" for k
    by (rule str_strip_id) (auto dest: str_nat_digits is_digit_not_blank)
  have strip': "str_strip (CHR ''-'' # str_nat k) = CHR ''-'' # str_nat k" for k
    by (rule str_strip_id)
      (auto dest: str_nat_digits is_digit_not_blank simp: is_blank_def [of "CHR ''-''"])
  show ?thesis
    using scan_digits_str_nat [of 0 False "nat (- n)" "[]"]
    by (cases "n < 0")
      (simp_all add: py_int_def py_str_def strip strip' scan_signed_str_nat,
       simp add: scan_signed_def)
qed

lemma py_str_no_dot: "CHR ''.'' \<notin> set (py_str n)"
  using str_nat_digits is_digit_not_special by (auto simp: py_str_def)

section \<open>The conversions\<close>

text \<open>
  \<^verbatim>\<open>int_ip_from_string\<close>: the octets are read last first and each is shifted
  in from below, \<^verbatim>\<open>(hi << 8) | lo\<close> on unbounded integers. Nothing
  checks the number of octets or their range.
\<close>

definition int_ip_from_string :: "string \<Rightarrow> int res" where
  "int_ip_from_string ip_string =
     (case seq_res (map py_int (rev (str_split (CHR ''.'') ip_string))) of
        Inl e \<Rightarrow> Inl e
      | Inr addr_segments \<Rightarrow> Inr (foldl (\<lambda>hi lo. push_bit 8 hi OR lo) 0 addr_segments))"

text \<open>\<^verbatim>\<open>int_ip_to_string\<close>: the four low bytes, lowest first.\<close>

definition int_ip_to_string :: "int \<Rightarrow> string" where
  "int_ip_to_string ip_int =
     (let byte_mask = 255
      in str_join ''.'' (map (\<lambda>shift. py_str (drop_bit shift ip_int AND byte_mask)) [0, 8, 16, 24]))"

subsection \<open>What the conversions compute\<close>

text \<open>The value of a list of octets, first octet lowest.\<close>

fun octets_val :: "int list \<Rightarrow> int" where
  "octets_val [] = 0"
| "octets_val (b # bs) = b + 256 * octets_val bs"

definition is_octet :: "int \<Rightarrow> bool" where
  "is_octet b \<longleftrightarrow> 0 \<le> b \<and> b < 256"

lemma foldl_octets:
  "\<forall>b \<in> set bs. is_octet b \<Longrightarrow>
   foldl (\<lambda>hi lo. push_bit 8 hi OR lo) 0 (rev bs) = octets_val bs"
  by (induction bs) (auto simp: is_octet_def push_or_byte)

lemma from_string_join:
  assumes "bs \<noteq> []" and "\<forall>b \<in> set bs. is_octet b"
  shows "int_ip_from_string (str_join ''.'' (map py_str bs)) = Inr (octets_val bs)"
proof -
  have "str_split (CHR ''.'') (str_join ''.'' (map py_str bs)) = map py_str bs"
    using assms(1) by (intro str_split_join) (auto simp: py_str_no_dot)
  moreover have "map py_int (rev (map py_str bs)) = map Inr (rev bs)"
    by (simp add: rev_map py_int_py_str)
  ultimately show ?thesis
    using foldl_octets [OF assms(2)] by (simp add: int_ip_from_string_def)
qed

lemma div_bytes:
  fixes n :: int
  shows "n div 2 ^ 8 = n div 256" and "n div 2 ^ 16 = n div 256 div 256"
    and "n div 2 ^ 24 = n div 256 div 256 div 256"
  using zdiv_zmult2_eq [of 256 n 256] zdiv_zmult2_eq [of 256 n 65536] by simp_all

lemma octets_of_int:
  "octets_val (map (\<lambda>k. (n div 2 ^ k) mod 256) [0, 8, 16, 24]) = n mod 2 ^ 32"
proof -
  have m: "x mod (256 * k) = x mod 256 + 256 * (x div 256 mod k)" if "0 < k" for x k :: int
    using that zmod_zmult2_eq [of k x 256] by simp
  have "n mod 2 ^ 32 = n mod 256 + 256 * (n div 256 mod 16777216)"
    using m [of 16777216 n] by simp
  also have "n div 256 mod 16777216 = n div 256 mod 256 + 256 * (n div 256 div 256 mod 65536)"
    using m [of 65536 "n div 256"] by simp
  also have "n div 256 div 256 mod 65536 =
      n div 256 div 256 mod 256 + 256 * (n div 256 div 256 div 256 mod 256)"
    using m [of 256 "n div 256 div 256"] by simp
  finally show ?thesis
    by (simp only: list.map octets_val.simps div_bytes) simp
qed

lemma to_string_octets:
  "int_ip_to_string n =
     str_join ''.'' (map py_str (map (\<lambda>k. (n div 2 ^ k) mod 256) [0, 8, 16, 24]))"
  by (simp only: int_ip_to_string_def Let_def drop_and_byte list.map)

lemma from_to_string: "int_ip_from_string (int_ip_to_string n) = Inr (n mod 2 ^ 32)"
proof -
  have "\<forall>b \<in> set (map (\<lambda>k. (n div 2 ^ k) mod 256) [0, 8, 16, 24]). is_octet b"
    by (simp add: is_octet_def)
  then show ?thesis
    unfolding to_string_octets by (subst from_string_join) (simp_all only: octets_of_int, simp)
qed

lemma octet_cons: "is_octet a \<Longrightarrow> (a + 256 * r) mod 256 = a \<and> (a + 256 * r) div 256 = r"
  by (simp add: is_octet_def)

lemma octets_val_digits:
  assumes "is_octet a" "is_octet b" "is_octet c" "is_octet d"
  shows "map (\<lambda>k. (octets_val [a, b, c, d] div 2 ^ k) mod 256) [0, 8, 16, 24] = [a, b, c, d]"
  unfolding list.map div_bytes octets_val.simps
  using assms by (simp only: octet_cons power_0 div_by_1 mult_zero_right add_0_right mod_by_0) (simp add: is_octet_def)

lemma to_from_string:
  assumes "is_octet a" "is_octet b" "is_octet c" "is_octet d"
    and "int_ip_from_string (str_join ''.'' (map py_str [a, b, c, d])) = Inr n"
  shows "int_ip_to_string n = str_join ''.'' (map py_str [a, b, c, d])"
proof -
  have "n = octets_val [a, b, c, d]"
    using assms from_string_join [of "[a, b, c, d]"] by simp
  then show ?thesis
    unfolding to_string_octets by (simp only: octets_val_digits [OF assms(1-4)])
qed

lemma from_string_raises_iff:
  "int_ip_from_string s = Inl e \<longleftrightarrow>
     e = ValueError \<and> (\<exists>w \<in> set (str_split (CHR ''.'') s). py_int w = Inl ValueError)"
proof -
  let ?rs = "map py_int (rev (str_split (CHR ''.'') s))"
  have only: "py_int w = Inl e' \<Longrightarrow> e' = ValueError" for w e'
    by (simp add: py_int_def split: option.splits)
  have "(\<exists>e. seq_res ?rs = Inl e) \<longleftrightarrow>
      (\<exists>w \<in> set (str_split (CHR ''.'') s). \<exists>e. py_int w = Inl e)"
    unfolding seq_res_Inl_iff by auto
  moreover have "seq_res ?rs = Inl e' \<Longrightarrow> e' = ValueError" for e'
    using seq_res_Inl_in [of ?rs e'] only by auto
  ultimately show ?thesis
    using only by (cases "seq_res ?rs") (auto simp: int_ip_from_string_def)
qed

end
