(* ===== verification/StackExceptions.thy ===== *)
theory StackExceptions imports AddressHelpers begin

text \<open>
  \<^verbatim>\<open>lwip_py/stack/exceptions.py\<close>: the text and the code of the stack's
  exceptions. \<open>StackException\<close> is the base class, whose text is Python's default: the
  argument it was raised with.
\<close>

definition lwip_error_mapping :: "(int \<times> string) list" where
  "lwip_error_mapping =
     [(-1, ''Out of memory''),
      (-2, ''Buffer error''),
      (-3, ''Timeout''),
      (-4, ''Routing problem''),
      (-5, ''Operation in progress''),
      (-6, ''Illegal value''),
      (-7, ''Operation would block''),
      (-8, ''Address in use''),
      (-9, ''Already connecting''),
      (-10, ''Connection already established''),
      (-11, ''Not connected''),
      (-12, ''Low level interface error''),
      (-13, ''Connection aborted''),
      (-14, ''Connection reset''),
      (-15, ''Connection closed''),
      (-16, ''Illegal argument'')]"

fun exc_str :: "stack_exception \<Rightarrow> string res" where
  "exc_str (StackException code) = Inr (py_str code)"
| "exc_str (LwipError code) =
     (case map_of lwip_error_mapping code of Some m \<Rightarrow> Inr m | None \<Rightarrow> Inl KeyError)"
| "exc_str AllocationError = Inr ''Allocation failed''"

text \<open>Only \<open>LwipError\<close> has the method \<^verbatim>\<open>get_code\<close>.\<close>

fun exc_get_code :: "stack_exception \<Rightarrow> int res" where
  "exc_get_code (LwipError code) = Inr code"
| "exc_get_code _ = Inl AttributeError"

lemma lwip_error_codes: "map fst lwip_error_mapping = map (\<lambda>k. - int k) [1..<17]"
  by code_simp

lemma lwip_error_distinct:
  "distinct (map fst lwip_error_mapping)" "distinct (map snd lwip_error_mapping)"
  by (simp_all add: lwip_error_mapping_def)

lemma lwip_code_range: "code \<in> set (map fst lwip_error_mapping) \<longleftrightarrow> -16 \<le> code \<and> code \<le> -1"
proof -
  have "code \<in> (\<lambda>k. - int k) ` {1..<17} \<longleftrightarrow> -16 \<le> code \<and> code \<le> -1"
    by (auto simp: image_iff intro!: bexI [of _ "nat (- code)"])
  then show ?thesis by (simp add: lwip_error_codes)
qed

text \<open>
  The texts of \<open>LwipError\<close>: exactly the lwIP codes -1 to -16 have one, any other code makes
  \<^verbatim>\<open>str()\<close> of the exception raise \<open>KeyError\<close>, and two codes never share a text.
\<close>

lemma lwip_error_texts:
  "((\<exists>m. exc_str (LwipError code) = Inr m) \<longleftrightarrow> -16 \<le> code \<and> code \<le> -1) \<and>
   (exc_str (LwipError code) = Inl KeyError \<longleftrightarrow> code < -16 \<or> -1 < code) \<and>
   (exc_str (LwipError code) = exc_str (LwipError code') \<longleftrightarrow>
      code = code' \<or> exc_str (LwipError code) = Inl KeyError \<and> exc_str (LwipError code') = Inl KeyError)"
proof -
  have none: "map_of lwip_error_mapping c = None \<longleftrightarrow> c < -16 \<or> -1 < c" for c
    using lwip_code_range [of c] by (auto simp: map_of_eq_None_iff)
  have inj: "c = c'" if "map_of lwip_error_mapping c = Some m" "map_of lwip_error_mapping c' = Some m" for c c' m
    using that lwip_error_distinct(2) by (metis (no_types, lifting) distinct_map inj_onD fst_conv map_of_SomeD snd_conv)
  show ?thesis
    using none [of code] none [of code'] inj
    by (cases "map_of lwip_error_mapping code"; cases "map_of lwip_error_mapping code'") auto
qed

end
