(* ===== verification/IpAddress.thy ===== *)
theory IpAddress imports StackExceptions begin

text \<open>
  \<^verbatim>\<open>lwip_py/stack/ip_address.py\<close>: the ctypes structures for addresses. A field of
  type \<^verbatim>\<open>c_uint32\<close> takes any Python integer and keeps its low 32 bits. The union
  of \<^verbatim>\<open>IpAddr\<close> shares the memory of its two members: five 32-bit words, of which
  an IPv4 address is the first and an IPv6 address the first four, the zone being the low
  byte of the fifth.
\<close>

section \<open>The structures\<close>

record ip_v4_addr =
  addr :: "32 word"

record ip_v6_addr =
  addr6 :: "32 word list"  \<comment> \<open>four words\<close>
  zone :: "8 word"

record ip_addr =
  u_addr :: "32 word list"  \<comment> \<open>the union's five words\<close>
  addr_type :: "8 word"

text \<open>\<^verbatim>\<open>IpV4Addr.__init__\<close>; the default argument is \<open>'0.0.0.0'\<close>.\<close>

definition ip_v4_init :: "string \<Rightarrow> ip_v4_addr res" where
  "ip_v4_init ip_str =
     (case int_ip_from_string ip_str of
        Inl e \<Rightarrow> Inl e
      | Inr n \<Rightarrow> Inr \<lparr>addr = of_int n\<rparr>)"

definition ip_v4_default :: "ip_v4_addr res" where
  "ip_v4_default = ip_v4_init ''0.0.0.0''"

text \<open>Writing and reading the union's members.\<close>

definition set_ip4 :: "ip_v4_addr \<Rightarrow> 32 word list \<Rightarrow> 32 word list" where
  "set_ip4 a ws = ws[0 := addr a]"

definition set_ip6 :: "ip_v6_addr \<Rightarrow> 32 word list \<Rightarrow> 32 word list" where
  "set_ip6 a ws = take 4 (addr6 a) @ [ucast (zone a)]"

definition get_ip4 :: "ip_addr \<Rightarrow> ip_v4_addr" where
  "get_ip4 a = \<lparr>addr = u_addr a ! 0\<rparr>"

text \<open>
  \<^verbatim>\<open>IpAddr.__init__\<close>: the argument is any Python object. Both tests of the source
  are for \<^verbatim>\<open>IpV4Addr\<close>.
\<close>

datatype addr_arg = V4 ip_v4_addr | V6 ip_v6_addr | Other_object

definition is_v4 :: "addr_arg \<Rightarrow> bool" where
  "is_v4 a \<longleftrightarrow> (case a of V4 _ \<Rightarrow> True | _ \<Rightarrow> False)"

definition ip_addr_init :: "addr_arg \<Rightarrow> ip_addr res" where
  "ip_addr_init a =
     (let address_type_ipv4 = 0; address_type_ipv6 = 6; u = replicate 5 0 in
      if is_v4 a then
        (case a of
           V4 v \<Rightarrow> Inr \<lparr>u_addr = set_ip4 v u, addr_type = address_type_ipv4\<rparr>
         | _ \<Rightarrow> Inl TypeError)
      else if is_v4 a then
        (case a of
           V6 v \<Rightarrow> Inr \<lparr>u_addr = set_ip6 v u, addr_type = address_type_ipv6\<rparr>
         | _ \<Rightarrow> Inl TypeError)
      else Inl ValueError)"

text \<open>A dotted quad of canonical octets.\<close>

lemma dotted_quad:
  assumes "is_octet a" and "is_octet b" and "is_octet c" and "is_octet d"
  shows "\<exists>v. ip_v4_init (str_join ''.'' (map py_str [a, b, c, d])) = Inr v \<and>
    uint (addr v) = a + 256 * b + 65536 * c + 16777216 * d \<and>
    int_ip_to_string (uint (addr v)) = str_join ''.'' (map py_str [a, b, c, d])"
proof -
  let ?s = "str_join ''.'' (map py_str [a, b, c, d])" and ?n = "octets_val [a, b, c, d]"
  have n: "?n = a + 256 * b + 65536 * c + 16777216 * d" by simp
  have range: "0 \<le> ?n" "?n < 2 ^ 32" using assms by (auto simp: is_octet_def)
  have parse: "int_ip_from_string ?s = Inr ?n"
    using from_string_join [of "[a, b, c, d]"] assms by simp
  have u: "uint (of_int ?n :: 32 word) = ?n"
    using take_bit_int_eq_self [OF range]
    by (simp add: uint_word_of_int_eq take_bit_of_int del: octets_val.simps of_int_add)
  have "int_ip_to_string ?n = ?s" using to_from_string [OF assms parse] .
  then show ?thesis
    using parse u n by (intro exI [of _ "\<lparr>addr = of_int ?n\<rparr>"]) (simp add: ip_v4_init_def del: octets_val.simps)
qed

section \<open>Properties\<close>

text \<open>
  C29: an IPv4 address survives printing and parsing: for each of the 2^32 values of the
  structure, \<open>IpV4Addr(int_ip_to_string(a.addr))\<close> is \<open>a\<close> again.
\<close>

theorem ip_v4_print_parse: "ip_v4_init (int_ip_to_string (uint (addr a))) = Inr a"
proof -
  have "uint (addr a) mod 2 ^ 32 = uint (addr a)"
    using uint_bounded [of "addr a"] by simp
  then show ?thesis by (simp add: ip_v4_init_def from_to_string)
qed

text \<open>
  C30: a dotted quad of canonical octets survives parsing and printing, and the structure holds
  its octets lowest first, as the network byte order demands of a little-endian host.
\<close>

theorem ip_v4_parse_print:
  assumes "is_octet a" and "is_octet b" and "is_octet c" and "is_octet d"
  shows "\<exists>v. ip_v4_init (str_join ''.'' (map py_str [a, b, c, d])) = Inr v \<and>
    uint (addr v) = a + 256 * b + 65536 * c + 16777216 * d \<and>
    int_ip_to_string (uint (addr v)) = str_join ''.'' (map py_str [a, b, c, d])"
  by (rule dotted_quad [OF assms])

theorem ip_v4_parse_print_witness:
  "\<exists>v. ip_v4_init ''127.3.2.1'' = Inr v \<and> uint (addr v) = 16909183 \<and>
    int_ip_to_string (uint (addr v)) = ''127.3.2.1''"
proof -
  have "str_join ''.'' (map py_str [127, 3, 2, 1]) = ''127.3.2.1''" by code_simp
  then show ?thesis
    using ip_v4_parse_print [of 127 3 2 1] by (simp add: is_octet_def)
qed

text \<open>
  C31: \<open>IpV4Addr\<close> fails exactly when a part between dots is not an integer in Python's sense, and
  then with \<open>ValueError\<close>; the number of parts and the size of each are not checked, so a text
  of other than four parts, or with parts above 255, gives an address too.
\<close>

theorem ip_v4_init_raises:
  "(ip_v4_init s = Inl e \<longleftrightarrow>
      e = ValueError \<and> (\<exists>w \<in> set (str_split (CHR ''.'') s). py_int w = Inl ValueError)) \<and>
   ip_v4_init ''1.2.3.4.5'' = Inr \<lparr>addr = 67305985\<rparr> \<and> ip_v4_init ''256.0.0.0'' = Inr \<lparr>addr = 256\<rparr> \<and>
   ip_v4_init ''7'' = Inr \<lparr>addr = 7\<rparr> \<and> ip_v4_init '''' = Inl ValueError"
proof -
  have "ip_v4_init s = Inl e \<longleftrightarrow> int_ip_from_string s = Inl e"
    by (simp add: ip_v4_init_def split: sum.split)
  moreover have "ip_v4_init ''1.2.3.4.5'' = Inr \<lparr>addr = 67305985\<rparr>"
    and "ip_v4_init ''256.0.0.0'' = Inr \<lparr>addr = 256\<rparr>"
    and "ip_v4_init ''7'' = Inr \<lparr>addr = 7\<rparr>" and "ip_v4_init '''' = Inl ValueError"
    by code_simp+
  ultimately show ?thesis using from_string_raises_iff by blast
qed

text \<open>
  \<open>IpAddr\<close> takes an IPv4 address and gives it back, and refuses everything else; an
  \<open>IpV6Addr\<close> is refused as well, because the branch meant for it tests for \<open>IpV4Addr\<close> again.
\<close>

lemma ip_addr_v4_only:
  "(case ip_addr_init a of
      Inr x \<Rightarrow> \<exists>v. a = V4 v \<and> get_ip4 x = v \<and> addr_type x = 0 \<and> length (u_addr x) = 5
    | Inl e \<Rightarrow> (\<forall>v. a \<noteq> V4 v) \<and> e = ValueError) \<and>
   ip_addr_init (V6 w) = Inl ValueError"
  by (cases a) (simp_all add: ip_addr_init_def is_v4_def set_ip4_def get_ip4_def)

end
