(* ===== verification/Ctypes.thy ===== *)
theory Ctypes imports IpAddress begin

text \<open>
  The part of ctypes that the stack package uses, and the lwIP library as a parameter. A
  Python value that crosses the boundary is a \<open>py_val\<close>, what C receives and returns is a
  \<open>c_val\<close>; a wrapped function converts its arguments by its \<^verbatim>\<open>argtypes\<close> and its
  result by its \<^verbatim>\<open>restype\<close>. The memory that both sides see is a record of typed
  memories (pbufs, netifs, addresses, bytes); \<open>priv\<close> is everything else the library
  keeps. The library itself is the functions it exports, each of which may do anything to
  that memory.
\<close>

section \<open>Memory shared with C\<close>

type_synonym byte = "8 word"

text \<open>\<^verbatim>\<open>PBuf\<close> of \<^verbatim>\<open>lwip_py/stack/pbuf.py\<close>; addresses are numbers and 0 is \<open>NULL\<close>.\<close>

record pbuf =
  next_pbuf :: nat
  payload :: nat
  tot_len :: "16 word"
  len :: "16 word"
  type_internal :: byte
  pbuf_flags :: byte
  ref :: byte
  if_idx :: byte

text \<open>
  Function pointers: \<open>NULL\<close>, or a \<^verbatim>\<open>CFUNCTYPE\<close> object around a callable of the
  package, named by the class's method and the identity of the object (for \<open>Lib_function\<close> a
  wrapped function of the library, for \<open>User_callable\<close> a callable of the user).
\<close>

datatype py_callable =
    Recv_callback nat | Link_output_wrapper nat | Status_callback_internal nat
  | Link_status_callback_internal nat | Report_netif_init nat | Ping_callback_internal nat
  | Lib_function string | User_callable nat

datatype c_fun = Null_fun | Thunk py_callable

text \<open>\<^verbatim>\<open>NetIf._LwipNetIf\<close>.\<close>

record lwip_netif =
  next_netif :: nat
  ip_addr :: ip_v4_addr
  netmask :: ip_v4_addr
  gw :: ip_v4_addr
  input :: c_fun
  "output" :: c_fun
  linkoutput :: c_fun
  status_callback :: c_fun
  link_callback :: c_fun
  state :: nat  \<comment> \<open>address of a \<^verbatim>\<open>py_object\<close>\<close>
  mtu :: "16 word"
  hwaddr :: "byte list"
  hwaddr_len :: byte
  flags :: byte
  name :: "byte list"
  num :: byte

record 'l cmem =
  pbufs :: "nat \<Rightarrow> pbuf"
  netifs :: "nat \<Rightarrow> lwip_netif"
  ip4s :: "nat \<Rightarrow> ip_v4_addr"
  bytes :: "nat \<Rightarrow> byte"
  py_objects :: "nat \<Rightarrow> nat"  \<comment> \<open>the Python object a \<^verbatim>\<open>py_object\<close> refers to\<close>
  ping_cbk :: c_fun  \<comment> \<open>the static variable of \<^verbatim>\<open>lwip_lib/src/ping_result.c\<close>\<close>
  priv :: 'l

definition bytes_at :: "'l cmem \<Rightarrow> nat \<Rightarrow> nat \<Rightarrow> byte list" where
  "bytes_at m a n = map (\<lambda>i. bytes m (a + i)) [0..<n]"

lemma length_bytes_at [simp]: "length (bytes_at m a n) = n"
  by (simp add: bytes_at_def)

section \<open>Values and conversions\<close>

text \<open>
  \<open>PyPtr\<close> is a ctypes pointer, a structure passed where a pointer is expected, or
  \<^verbatim>\<open>byref\<close> of one, with the name of the structure it points to; \<open>PyFunc\<close> a
  \<^verbatim>\<open>CFUNCTYPE\<close> object (the one built without a callable is \<open>NULL\<close>);
  \<open>PyArray\<close> a ctypes array of bytes.
\<close>

datatype py_val =
    PyNone | PyInt int | PyBytes "byte list" | PyByteArray "byte list" | PyArray "byte list"
  | PyPtr string nat | PyFunc c_fun

datatype c_val = CVoid | CInt int | CPtr nat | CBuf "byte list" | CFun c_fun

datatype c_type = c_int8 | c_uint8 | c_uint16 | c_int | c_int64 | c_void_p | POINTER string | CFUNC

text \<open>Integers are cut to the width of their C type, without a check.\<close>

definition wrap_signed :: "nat \<Rightarrow> int \<Rightarrow> int" where
  "wrap_signed w n = (n + 2 ^ (w - 1)) mod 2 ^ w - 2 ^ (w - 1)"

definition wrap_unsigned :: "nat \<Rightarrow> int \<Rightarrow> int" where
  "wrap_unsigned w n = n mod 2 ^ w"

fun from_param :: "c_type \<Rightarrow> py_val \<Rightarrow> c_val res" where
  "from_param c_int8 (PyInt n) = Inr (CInt (wrap_signed 8 n))"
| "from_param c_uint8 (PyInt n) = Inr (CInt (wrap_unsigned 8 n))"
| "from_param c_uint16 (PyInt n) = Inr (CInt (wrap_unsigned 16 n))"
| "from_param c_int (PyInt n) = Inr (CInt (wrap_signed 32 n))"
| "from_param c_int64 (PyInt n) = Inr (CInt (wrap_signed 64 n))"
| "from_param c_void_p PyNone = Inr (CPtr 0)"
| "from_param c_void_p (PyInt n) = Inr (CPtr (nat (wrap_unsigned 64 n)))"
| "from_param c_void_p (PyBytes bs) = Inr (CBuf bs)"
| "from_param c_void_p (PyArray bs) = Inr (CBuf bs)"
| "from_param c_void_p (PyPtr tag a) = Inr (CPtr a)"
| "from_param (POINTER tag) PyNone = Inr (CPtr 0)"
| "from_param (POINTER tag) (PyPtr tag' a) = (if tag' = tag then Inr (CPtr a) else Inl ArgumentError)"
| "from_param CFUNC (PyFunc f) = Inr (CFun f)"
| "from_param _ _ = Inl ArgumentError"

fun to_result :: "c_type option \<Rightarrow> c_val \<Rightarrow> py_val" where
  "to_result None _ = PyNone"
| "to_result (Some c_int8) (CInt n) = PyInt (wrap_signed 8 n)"
| "to_result (Some c_uint8) (CInt n) = PyInt (wrap_unsigned 8 n)"
| "to_result (Some c_uint16) (CInt n) = PyInt (wrap_unsigned 16 n)"
| "to_result (Some c_int) (CInt n) = PyInt (wrap_signed 32 n)"
| "to_result (Some c_int64) (CInt n) = PyInt (wrap_signed 64 n)"
| "to_result (Some (POINTER tag)) (CPtr a) = PyPtr tag a"
| "to_result _ _ = PyNone"

text \<open>\<^verbatim>\<open>pointer.contents\<close>: dereferencing \<open>NULL\<close> raises \<open>ValueError\<close>.\<close>

fun contents :: "py_val \<Rightarrow> ('s, py_val) py" where
  "contents (PyPtr tag a) = (if a = 0 then py_raise ValueError else py_return (PyPtr tag a))"
| "contents _ = py_raise AttributeError"

text \<open>Truth of a value: a structure is always true, a pointer when it is not \<open>NULL\<close>.\<close>

fun int_true :: "py_val \<Rightarrow> bool" where
  "int_true (PyInt n) = (n \<noteq> 0)"
| "int_true PyNone = False"
| "int_true _ = True"

fun py_len :: "py_val \<Rightarrow> int res" where
  "py_len (PyBytes bs) = Inr (int (length bs))"
| "py_len (PyByteArray bs) = Inr (int (length bs))"
| "py_len (PyArray bs) = Inr (int (length bs))"
| "py_len _ = Inl TypeError"

section \<open>The library and its wrapped functions\<close>

text \<open>
  A loaded library: the functions it exports, by name. A name it does not export is an
  \<open>AttributeError\<close> at the time it is wrapped.
\<close>

type_synonym 'l lwip_lib = "string \<Rightarrow> (c_val list \<Rightarrow> 'l cmem \<Rightarrow> c_val \<times> 'l cmem) option"

record c_function =
  func_name :: string
  restype :: "c_type option"
  argtypes :: "c_type list option"

text \<open>\<^verbatim>\<open>wrap_function\<close> of \<^verbatim>\<open>lwip_py/utility/ctypes_helper.py\<close>.\<close>

definition wrap_function ::
  "'l lwip_lib \<Rightarrow> string \<Rightarrow> c_type option \<Rightarrow> c_type list option \<Rightarrow> c_function res" where
  "wrap_function lib fname res_type arg_types =
     (case lib fname of
        None \<Rightarrow> Inl AttributeError
      | Some _ \<Rightarrow> Inr \<lparr>func_name = fname, restype = res_type, argtypes = arg_types\<rparr>)"

text \<open>Calling a wrapped function; every call of the sources passes as many arguments as types.\<close>

definition call_function :: "'l lwip_lib \<Rightarrow> c_function \<Rightarrow> py_val list \<Rightarrow> ('l cmem, py_val) py" where
  "call_function lib f args m =
     (case lib (func_name f) of
        None \<Rightarrow> (Inl AttributeError, m)
      | Some c \<Rightarrow>
          (case argtypes f of
             None \<Rightarrow> (case c [] m of (r, m') \<Rightarrow> (Inr (to_result (restype f) r), m'))
           | Some ts \<Rightarrow>
               if length args \<noteq> length ts then (Inl TypeError, m)
               else
                 (case seq_res (map2 from_param ts args) of
                    Inl e \<Rightarrow> (Inl e, m)
                  | Inr cs \<Rightarrow> (case c cs m of (r, m') \<Rightarrow> (Inr (to_result (restype f) r), m')))))"

text \<open>A call that returns has its result's type.\<close>

lemma call_int8:
  assumes "call_function lib f args m = (Inr r, m')" and "restype f = Some c_int8"
  shows "r = PyNone \<or> (\<exists>n. r = PyInt n \<and> -128 \<le> n \<and> n < 128)"
proof -
  have "to_result (Some c_int8) v = PyNone \<or> (\<exists>n. to_result (Some c_int8) v = PyInt n \<and> -128 \<le> n \<and> n < 128)" for v
    by (cases v) (simp_all add: wrap_signed_def)
  then show ?thesis
    using assms by (auto simp: call_function_def split: option.splits prod.splits if_splits sum.splits)
qed

lemma wrap_unsigned_id: "0 \<le> n \<Longrightarrow> n < 2 ^ w \<Longrightarrow> wrap_unsigned w n = n"
  by (simp add: wrap_unsigned_def)

lemma wrap_unsigned_range: "0 \<le> wrap_unsigned w n \<and> wrap_unsigned w n < 2 ^ w"
  by (simp add: wrap_unsigned_def)

lemma wrap_signed_id: "0 < w \<Longrightarrow> - (2 ^ (w - 1)) \<le> n \<Longrightarrow> n < 2 ^ (w - 1) \<Longrightarrow> wrap_signed w n = n"
proof -
  assume w: "0 < w" and n: "- (2 ^ (w - 1)) \<le> n" "n < 2 ^ (w - 1)"
  have "(2::int) ^ w = 2 * 2 ^ (w - 1)" using w by (cases w) simp_all
  with n have "0 \<le> n + 2 ^ (w - 1)" "n + 2 ^ (w - 1) < 2 ^ w" by simp_all
  then show ?thesis by (simp add: wrap_signed_def)
qed

section \<open>Loading the library\<close>

text \<open>
  \<^verbatim>\<open>MultiInstanceLibraryLoader\<close> of \<^verbatim>\<open>lwip_py/utility/ctypes_lib_loader.py\<close>.
  The file system is a parameter: \<open>copy\<close> copies a file to a fresh name (\<open>None\<close> when the
  file is missing), and \<open>CDLL\<close> gives the loaded library by the name of the file.
\<close>

record loader =
  path_to_lib :: string
  tmp_lib_copy :: "string option"

definition make_loader :: "string \<Rightarrow> loader" where
  "make_loader path = \<lparr>path_to_lib = path, tmp_lib_copy = None\<rparr>"

definition load_library ::
  "(string \<Rightarrow> string option) \<Rightarrow> (string \<Rightarrow> 'l lwip_lib res) \<Rightarrow> loader \<Rightarrow> 'l lwip_lib res \<times> loader" where
  "load_library copy CDLL ld =
     (case copy (path_to_lib ld) of
        None \<Rightarrow> (Inl FileNotFoundError, ld)
      | Some nm \<Rightarrow> (CDLL nm, ld\<lparr>tmp_lib_copy := Some nm\<rparr>))"

end
