(* ===== verification/Allocator.thy ===== *)
theory Allocator imports Ctypes begin

text \<open>
  \<^verbatim>\<open>lwip_py/stack/memory_allocator.py\<close>: pbufs are allocated, filled and freed by
  the library.
\<close>

section \<open>The class\<close>

record allocator =
  pbuf_alloc :: c_function
  pbuf_take :: c_function
  pbuf_free :: c_function

definition allocator_init :: "'l lwip_lib \<Rightarrow> allocator res" where
  "allocator_init lwip =
     res_bind (wrap_function lwip ''pbuf_alloc'' (Some (POINTER ''PBuf'')) (Some [c_int64, c_uint16, c_int64]))
       (\<lambda>alloc.
     res_bind (wrap_function lwip ''pbuf_take'' (Some c_int8) (Some [POINTER ''PBuf'', c_void_p, c_uint16]))
       (\<lambda>take.
     res_bind (wrap_function lwip ''pbuf_free'' (Some c_uint8) (Some [POINTER ''PBuf'']))
       (\<lambda>free. Inr \<lparr>pbuf_alloc = alloc, pbuf_take = take, pbuf_free = free\<rparr>)))"

definition allocate_raw_pbuf :: "'l lwip_lib \<Rightarrow> allocator \<Rightarrow> int \<Rightarrow> ('l cmem, py_val) py" where
  "allocate_raw_pbuf lwip a sz =
     (let pbuf_raw = 1; pbuf_pool = 386 in
      py_bind (call_function lwip (pbuf_alloc a) [PyInt pbuf_raw, PyInt sz, PyInt pbuf_pool]) contents)"

text \<open>\<^verbatim>\<open>size or len(data_to_place)\<close>\<close>

definition size_or_len :: "int option \<Rightarrow> py_val \<Rightarrow> ('s, int) py" where
  "size_or_len sz data =
     (case sz of
        Some n \<Rightarrow> if n \<noteq> 0 then py_return n else of_res (py_len data)
      | None \<Rightarrow> of_res (py_len data))"

definition allocate_raw_pbuf_from_data ::
  "'l lwip_lib \<Rightarrow> allocator \<Rightarrow> py_val \<Rightarrow> int option \<Rightarrow> ('l cmem, py_val) py" where
  "allocate_raw_pbuf_from_data lwip a data_to_place sz =
     py_bind (size_or_len sz data_to_place) (\<lambda>sz.
     py_bind (allocate_raw_pbuf lwip a sz) (\<lambda>new_pbuf.
     py_bind (call_function lwip (pbuf_take a) [new_pbuf, data_to_place, PyInt sz]) (\<lambda>_.
     py_return new_pbuf)))"

definition allocate_transport_pbuf_from_data ::
  "'l lwip_lib \<Rightarrow> allocator \<Rightarrow> py_val \<Rightarrow> int option \<Rightarrow> ('l cmem, py_val) py" where
  "allocate_transport_pbuf_from_data lwip a data_to_place sz =
     (let pbuf_transport = 74; pbuf_ram = 640 in
      py_bind (size_or_len sz data_to_place) (\<lambda>sz.
      py_bind (call_function lwip (pbuf_alloc a) [PyInt pbuf_transport, PyInt sz, PyInt pbuf_ram]) (\<lambda>new_pbuf.
      py_bind (call_function lwip (pbuf_take a) [new_pbuf, data_to_place, PyInt sz]) (\<lambda>_.
      contents new_pbuf))))"

definition free_pbuf :: "'l lwip_lib \<Rightarrow> allocator \<Rightarrow> py_val \<Rightarrow> ('l cmem, py_val) py" where
  "free_pbuf lwip a pbuf = call_function lwip (pbuf_free a) [pbuf]"

section \<open>What the library documents\<close>

text \<open>
  The bytes of a pbuf chain, segment after segment; \<open>None\<close> for a chain that does not end or
  a segment without memory.
\<close>

partial_function (option) chain_bytes :: "'l cmem \<Rightarrow> nat \<Rightarrow> byte list option" where
  "chain_bytes m p =
     (if p = 0 then Some []
      else if payload (pbufs m p) = 0 then None
      else Option.bind (chain_bytes m (next_pbuf (pbufs m p))) (\<lambda>rest.
        Some (bytes_at m (payload (pbufs m p)) (unat (len (pbufs m p))) @ rest)))"

lemma chain_bytes_NULL [simp]: "chain_bytes m 0 = Some []"
  by (simp add: chain_bytes.simps [of m 0])

lemma chain_bytes_last:
  "p \<noteq> 0 \<Longrightarrow> payload (pbufs m p) \<noteq> 0 \<Longrightarrow> next_pbuf (pbufs m p) = 0 \<Longrightarrow>
   chain_bytes m p = Some (bytes_at m (payload (pbufs m p)) (unat (len (pbufs m p))))"
  by (simp add: chain_bytes.simps [of m p])

lemma chain_bytes_prefix:
  assumes "chain_bytes m p = Some bs" and "p \<noteq> 0"
  shows "\<exists>rest. bs = bytes_at m (payload (pbufs m p)) (unat (len (pbufs m p))) @ rest \<and>
    chain_bytes m (next_pbuf (pbufs m p)) = Some rest"
  using assms by (auto simp: chain_bytes.simps [of m p] split: bind_splits if_splits)

lemma chain_bytes_payload: "chain_bytes m p = Some bs \<Longrightarrow> p \<noteq> 0 \<Longrightarrow> payload (pbufs m p) \<noteq> 0"
  by (auto simp: chain_bytes.simps [of m p] split: if_splits)

text \<open>
  The pbuf functions as lwIP documents them. \<open>pbuf_alloc\<close> of \<open>n\<close> bytes returns \<open>NULL\<close> or a chain
  it did not have handed out before; \<open>pbuf_take\<close> copies \<open>n\<close> bytes of the application's data
  into such a chain; \<open>pbuf_free\<close> takes a chain back. \<open>live\<close> is the set of chains the
  library has handed out.
\<close>

definition pbuf_laws :: "'l lwip_lib \<Rightarrow> ('l cmem \<Rightarrow> nat set) \<Rightarrow> bool" where
  "pbuf_laws lwip live \<longleftrightarrow>
     (\<exists>alloc take_fn free.
        lwip ''pbuf_alloc'' = Some alloc \<and> lwip ''pbuf_take'' = Some take_fn \<and> lwip ''pbuf_free'' = Some free \<and>
        (\<forall>m layer n kind. 0 \<le> n \<and> n < 65536 \<longrightarrow>
           (\<exists>p m1. alloc [CInt layer, CInt n, CInt kind] m = (CPtr p, m1) \<and>
              (if p = 0 then live m1 = live m
               else p \<notin> live m \<and> live m1 = insert p (live m) \<and>
                 (\<forall>bs. n \<le> int (length bs) \<longrightarrow>
                    (\<exists>m2. take_fn [CPtr p, CBuf bs, CInt n] m1 = (CInt 0, m2) \<and> live m2 = live m1 \<and>
                       chain_bytes m2 p = Some (take (nat n) bs)))))) \<and>
        (\<forall>m bs n. \<exists>m1 r. take_fn [CPtr 0, CBuf bs, CInt n] m = (CInt r, m1) \<and> live m1 = live m) \<and>
        (\<forall>m p. p \<in> live m \<longrightarrow> (\<exists>m1 k. free [CPtr p] m = (CInt k, m1) \<and> live m1 = live m - {p})))"

section \<open>What the allocator does with it\<close>

text \<open>The bytes of a value that C can read through a \<^verbatim>\<open>void\<close> pointer.\<close>

fun readable_bytes :: "py_val \<Rightarrow> byte list option" where
  "readable_bytes (PyBytes bs) = Some bs"
| "readable_bytes (PyArray bs) = Some bs"
| "readable_bytes _ = None"

lemma readable_param:
  "readable_bytes data = Some bs \<Longrightarrow> from_param c_void_p data = Inr (CBuf bs) \<and> py_len data = Inr (int (length bs))"
  by (cases data) simp_all

lemma allocator_init_eq:
  assumes "pbuf_laws lwip live"
  shows "allocator_init lwip = Inr
    \<lparr>pbuf_alloc = \<lparr>func_name = ''pbuf_alloc'', restype = Some (POINTER ''PBuf''), argtypes = Some [c_int64, c_uint16, c_int64]\<rparr>,
     pbuf_take = \<lparr>func_name = ''pbuf_take'', restype = Some c_int8, argtypes = Some [POINTER ''PBuf'', c_void_p, c_uint16]\<rparr>,
     pbuf_free = \<lparr>func_name = ''pbuf_free'', restype = Some c_uint8, argtypes = Some [POINTER ''PBuf'']\<rparr>\<rparr>"
  using assms by (auto simp: allocator_init_def wrap_function_def pbuf_laws_def)

lemmas call_simps = call_function_def wrap_signed_id

text \<open>The three calls, under the laws.\<close>

lemma call_pbuf_alloc:
  assumes laws: "pbuf_laws lwip live" and a: "allocator_init lwip = Inr a"
    and layer: "0 \<le> layer" "layer < 1000" and kind: "0 \<le> kind" "kind < 1000"
  obtains p m1 where "call_function lwip (pbuf_alloc a) [PyInt layer, PyInt n, PyInt kind] m = (Inr (PyPtr ''PBuf'' p), m1)"
    and "p = 0 \<Longrightarrow> live m1 = live m"
    and "p \<noteq> 0 \<Longrightarrow> p \<notin> live m \<and> live m1 = insert p (live m)"
    and "\<And>data bs. p \<noteq> 0 \<Longrightarrow> readable_bytes data = Some bs \<Longrightarrow> n mod 65536 \<le> int (length bs) \<Longrightarrow>
      \<exists>m2. call_function lwip (pbuf_take a) [PyPtr ''PBuf'' p, data, PyInt n] m1 = (Inr (PyInt 0), m2) \<and>
        live m2 = live m1 \<and> chain_bytes m2 p = Some (take (nat (n mod 65536)) bs)"
proof -
  let ?n = "n mod 65536"
  from laws obtain alloc take_fn where lib: "lwip ''pbuf_alloc'' = Some alloc" "lwip ''pbuf_take'' = Some take_fn"
    and laws': "\<And>m layer n kind. 0 \<le> n \<and> n < 65536 \<Longrightarrow>
       (\<exists>p m1. alloc [CInt layer, CInt n, CInt kind] m = (CPtr p, m1) \<and>
          (if p = 0 then live m1 = live m
           else p \<notin> live m \<and> live m1 = insert p (live m) \<and>
             (\<forall>bs. n \<le> int (length bs) \<longrightarrow>
                (\<exists>m2. take_fn [CPtr p, CBuf bs, CInt n] m1 = (CInt 0, m2) \<and> live m2 = live m1 \<and>
                   chain_bytes m2 p = Some (take (nat n) bs)))))"
    unfolding pbuf_laws_def by blast
  have "0 \<le> ?n \<and> ?n < 65536" by simp
  from laws' [OF this, of layer kind m] obtain p m1 where
    p: "alloc [CInt layer, CInt ?n, CInt kind] m = (CPtr p, m1)"
    and q: "if p = 0 then live m1 = live m
       else p \<notin> live m \<and> live m1 = insert p (live m) \<and>
         (\<forall>bs. ?n \<le> int (length bs) \<longrightarrow>
            (\<exists>m2. take_fn [CPtr p, CBuf bs, CInt ?n] m1 = (CInt 0, m2) \<and> live m2 = live m1 \<and>
               chain_bytes m2 p = Some (take (nat ?n) bs)))" by blast
  have w: "wrap_signed 64 layer = layer" "wrap_signed 64 kind = kind" "wrap_unsigned 16 n = ?n"
    using layer kind by (simp_all add: wrap_signed_id wrap_unsigned_def)
  note a = a [unfolded allocator_init_eq [OF laws], simplified, symmetric]
  have call: "call_function lwip (pbuf_alloc a) [PyInt layer, PyInt n, PyInt kind] m = (Inr (PyPtr ''PBuf'' p), m1)"
    by (simp add: a call_function_def lib w p)
  show thesis
  proof (rule that [OF call])
    fix data bs
    assume pn: "p \<noteq> 0" and d: "readable_bytes data = Some bs" and l: "?n \<le> int (length bs)"
    then obtain m2 where m2: "take_fn [CPtr p, CBuf bs, CInt ?n] m1 = (CInt 0, m2)"
      "live m2 = live m1" "chain_bytes m2 p = Some (take (nat ?n) bs)" using q by auto
    have "call_function lwip (pbuf_take a) [PyPtr ''PBuf'' p, data, PyInt n] m1 = (Inr (PyInt 0), m2)"
      by (simp add: a call_function_def lib w readable_param [OF d] m2(1) wrap_signed_id)
    with m2 show "\<exists>m2. call_function lwip (pbuf_take a) [PyPtr ''PBuf'' p, data, PyInt n] m1 = (Inr (PyInt 0), m2) \<and>
        live m2 = live m1 \<and> chain_bytes m2 p = Some (take (nat ?n) bs)" by blast
  qed (use q in \<open>auto split: if_splits\<close>)
qed

text \<open>What the result of an allocation tells of the chain it returned.\<close>

definition allocated ::
  "('l cmem \<Rightarrow> nat set) \<Rightarrow> byte list \<Rightarrow> 'l cmem \<Rightarrow> py_val res \<Rightarrow> 'l cmem \<Rightarrow> bool" where
  "allocated live bs m r m' \<longleftrightarrow>
     (case r of
        Inl e \<Rightarrow> e = ValueError \<and> live m' = live m
      | Inr v \<Rightarrow> \<exists>p. v = PyPtr ''PBuf'' p \<and> p \<noteq> 0 \<and> p \<notin> live m \<and> live m' = insert p (live m) \<and>
          chain_bytes m' p = Some (take (length bs mod 65536) bs))"

lemma mod_length: "int (length bs) mod 65536 \<le> int (length bs)" "nat (int (length bs) mod 65536) = length bs mod 65536"
  by (simp_all add: zmod_le_nonneg_dividend nat_mod_distrib)

lemma take_NULL:
  assumes laws: "pbuf_laws lwip live" and a: "allocator_init lwip = Inr a" and d: "readable_bytes data = Some bs"
  obtains r m1 where "call_function lwip (pbuf_take a) [PyPtr ''PBuf'' 0, data, PyInt n] m = (Inr r, m1)"
    and "live m1 = live m"
proof -
  note a = a [unfolded allocator_init_eq [OF laws], simplified, symmetric]
  from laws obtain take_fn where lib: "lwip ''pbuf_take'' = Some take_fn"
    and t: "\<And>m bs n. \<exists>m1 r. take_fn [CPtr 0, CBuf bs, CInt n] m = (CInt r, m1) \<and> live m1 = live m"
    unfolding pbuf_laws_def by blast
  obtain m1 r where r: "take_fn [CPtr 0, CBuf bs, CInt (wrap_unsigned 16 n)] m = (CInt r, m1)" "live m1 = live m"
    using t by blast
  have "call_function lwip (pbuf_take a) [PyPtr ''PBuf'' 0, data, PyInt n] m = (Inr (PyInt (wrap_signed 8 r)), m1)"
    by (simp add: a call_function_def lib readable_param [OF d] r(1))
  with r(2) show thesis using that by blast
qed

lemma transport_allocated:
  assumes laws: "pbuf_laws lwip live" and a: "allocator_init lwip = Inr a" and d: "readable_bytes data = Some bs"
    and call: "allocate_transport_pbuf_from_data lwip a data None m = (r, m')"
  shows "allocated live bs m r m'"
proof -
  let ?n = "int (length bs)"
  obtain p m1 where p: "call_function lwip (pbuf_alloc a) [PyInt 74, PyInt ?n, PyInt 640] m = (Inr (PyPtr ''PBuf'' p), m1)"
    "p = 0 \<Longrightarrow> live m1 = live m" "p \<noteq> 0 \<Longrightarrow> p \<notin> live m \<and> live m1 = insert p (live m)"
    "\<And>data bs. p \<noteq> 0 \<Longrightarrow> readable_bytes data = Some bs \<Longrightarrow> ?n mod 65536 \<le> int (length bs) \<Longrightarrow>
      \<exists>m2. call_function lwip (pbuf_take a) [PyPtr ''PBuf'' p, data, PyInt ?n] m1 = (Inr (PyInt 0), m2) \<and>
        live m2 = live m1 \<and> chain_bytes m2 p = Some (take (nat (?n mod 65536)) bs)"
    by (rule call_pbuf_alloc [OF laws a, of 74 640 ?n m]) simp_all
  have step: "(r, m') = py_bind (call_function lwip (pbuf_take a) [PyPtr ''PBuf'' p, data, PyInt ?n])
      (\<lambda>_. contents (PyPtr ''PBuf'' p)) m1"
    using call
    by (simp add: allocate_transport_pbuf_from_data_def size_or_len_def readable_param [OF d] py_simps p(1)
        del: contents.simps)
  show ?thesis
  proof (cases "p = 0")
    case True
    obtain q m2 where "call_function lwip (pbuf_take a) [PyPtr ''PBuf'' 0, data, PyInt ?n] m1 = (Inr q, m2)"
      "live m2 = live m1" using take_NULL [OF laws a d] by metis
    then show ?thesis using step True p(2) by (simp add: py_simps allocated_def)
  next
    case False
    from p(4) [OF False d mod_length(1)] obtain m2 where
      "call_function lwip (pbuf_take a) [PyPtr ''PBuf'' p, data, PyInt ?n] m1 = (Inr (PyInt 0), m2)"
      "live m2 = live m1" "chain_bytes m2 p = Some (take (nat (?n mod 65536)) bs)" by blast
    then show ?thesis using step False p(3) by (simp add: py_simps allocated_def mod_length(2))
  qed
qed

lemma raw_allocated:
  assumes laws: "pbuf_laws lwip live" and a: "allocator_init lwip = Inr a" and d: "readable_bytes data = Some bs"
    and sz: "sz = None \<or> sz = Some (int (length bs))"
    and call: "allocate_raw_pbuf_from_data lwip a data sz m = (r, m')"
  shows "allocated live bs m r m'"
proof -
  let ?n = "int (length bs)"
  have sz': "size_or_len sz data = py_return ?n"
    using sz by (auto simp: size_or_len_def readable_param [OF d] py_simps)
  obtain p m1 where p: "call_function lwip (pbuf_alloc a) [PyInt 1, PyInt ?n, PyInt 386] m = (Inr (PyPtr ''PBuf'' p), m1)"
    "p = 0 \<Longrightarrow> live m1 = live m" "p \<noteq> 0 \<Longrightarrow> p \<notin> live m \<and> live m1 = insert p (live m)"
    "\<And>data bs. p \<noteq> 0 \<Longrightarrow> readable_bytes data = Some bs \<Longrightarrow> ?n mod 65536 \<le> int (length bs) \<Longrightarrow>
      \<exists>m2. call_function lwip (pbuf_take a) [PyPtr ''PBuf'' p, data, PyInt ?n] m1 = (Inr (PyInt 0), m2) \<and>
        live m2 = live m1 \<and> chain_bytes m2 p = Some (take (nat (?n mod 65536)) bs)"
    by (rule call_pbuf_alloc [OF laws a, of 1 386 ?n m]) simp_all
  show ?thesis
  proof (cases "p = 0")
    case True
    then show ?thesis
      using call p(1,2) by (auto simp: allocate_raw_pbuf_from_data_def allocate_raw_pbuf_def sz' py_simps allocated_def)
  next
    case False
    from p(4) [OF False d mod_length(1)] obtain m2 where
      "call_function lwip (pbuf_take a) [PyPtr ''PBuf'' p, data, PyInt ?n] m1 = (Inr (PyInt 0), m2)"
      "live m2 = live m1" "chain_bytes m2 p = Some (take (nat (?n mod 65536)) bs)" by blast
    then show ?thesis
      using call False p(1,3)
      by (auto simp: allocate_raw_pbuf_from_data_def allocate_raw_pbuf_def sz' py_simps allocated_def mod_length(2))
  qed
qed

end
