(* ===== verification/SampleLibrary.thy ===== *)
theory SampleLibrary imports Allocator begin

text \<open>
  A concrete library for the witnesses: a pool of at most \<open>cap\<close> pbufs of one segment of
  at most 64 bytes each.
  It satisfies the laws that the properties assume of lwIP, so those are not
  contradictory. It models no code of the repository.
\<close>

type_synonym sample_mem = "nat list cmem"

definition empty_pbuf :: pbuf where
  "empty_pbuf = \<lparr>next_pbuf = 0, payload = 0, tot_len = 0, len = 0, type_internal = 0, pbuf_flags = 0,
     ref = 0, if_idx = 0\<rparr>"

definition empty_netif :: lwip_netif where
  "empty_netif = \<lparr>next_netif = 0, ip_addr = \<lparr>addr = 0\<rparr>, netmask = \<lparr>addr = 0\<rparr>, gw = \<lparr>addr = 0\<rparr>, input = Null_fun,
     output = Null_fun, linkoutput = Null_fun, status_callback = Null_fun, link_callback = Null_fun, state = 0, mtu = 0,
     hwaddr = [0, 0, 0, 0, 0, 0], hwaddr_len = 0, flags = 0, name = [0, 0], num = 0\<rparr>"

definition sample_mem :: sample_mem where
  "sample_mem = \<lparr>pbufs = (\<lambda>_. empty_pbuf), netifs = (\<lambda>_. empty_netif), ip4s = (\<lambda>_. \<lparr>addr = 0\<rparr>),
     bytes = (\<lambda>_. 0), py_objects = (\<lambda>_. 0), ping_cbk = Null_fun, priv = []\<rparr>"

definition sample_live :: "sample_mem \<Rightarrow> nat set" where
  "sample_live m = set (priv m)"

definition fresh_pbuf :: "sample_mem \<Rightarrow> nat" where
  "fresh_pbuf m = Suc (foldr max (priv m) 0)"

fun sample_alloc :: "nat \<Rightarrow> c_val list \<Rightarrow> sample_mem \<Rightarrow> c_val \<times> sample_mem" where
  "sample_alloc cap [CInt layer, CInt n, CInt kind] m =
     (if cap \<le> length (priv m) \<or> 64 < n then (CPtr 0, m)
      else
        let p = fresh_pbuf m in
        (CPtr p, m\<lparr>pbufs := (pbufs m)(p := empty_pbuf\<lparr>payload := 64 * p, tot_len := of_int n, len := of_int n\<rparr>),
                   priv := p # priv m\<rparr>))"
| "sample_alloc cap _ m = (CVoid, m)"

fun sample_take :: "c_val list \<Rightarrow> sample_mem \<Rightarrow> c_val \<times> sample_mem" where
  "sample_take [CPtr p, CBuf bs, CInt n] m =
     (if p = 0 then (CInt (-16), m)
      else
        let a = payload (pbufs m p) in
        (CInt 0, m\<lparr>bytes := (\<lambda>i. if a \<le> i \<and> i < a + nat n then bs ! (i - a) else bytes m i)\<rparr>))"
| "sample_take _ m = (CVoid, m)"

fun sample_free :: "c_val list \<Rightarrow> sample_mem \<Rightarrow> c_val \<times> sample_mem" where
  "sample_free [CPtr p] m = (CInt 1, m\<lparr>priv := filter (\<lambda>q. q \<noteq> p) (priv m)\<rparr>)"
| "sample_free _ m = (CVoid, m)"

text \<open>Every other function returns its zero.\<close>

definition sample_lib :: "nat \<Rightarrow> nat list lwip_lib" where
  "sample_lib cap fname =
     (if fname = ''pbuf_alloc'' then Some (sample_alloc cap)
      else if fname = ''pbuf_take'' then Some sample_take
      else if fname = ''pbuf_free'' then Some sample_free
      else if fname = ''udp_new_ip_type'' then Some (\<lambda>_ m. (CPtr 9, m))
      else Some (\<lambda>_ m. (CInt 0, m)))"

lemma fresh_pbuf_notin: "fresh_pbuf m \<notin> sample_live m"
proof -
  have "x \<le> foldr max xs 0" if "x \<in> set xs" for x and xs :: "nat list"
    using that by (induction xs) auto
  from this [of "fresh_pbuf m" "priv m"] show ?thesis
    by (auto simp: fresh_pbuf_def sample_live_def)
qed

lemma sample_take_bytes:
  assumes "p \<noteq> 0" and "a \<noteq> 0" and "0 \<le> n" and "n \<le> int (length bs)"
    and "pbufs m p = empty_pbuf\<lparr>payload := a, tot_len := of_int n, len := of_int n\<rparr>" and "n < 65536"
  shows "\<exists>m2. sample_take [CPtr p, CBuf bs, CInt n] m = (CInt 0, m2) \<and> sample_live m2 = sample_live m \<and>
    chain_bytes m2 p = Some (take (nat n) bs)"
proof -
  obtain m2 where m2: "sample_take [CPtr p, CBuf bs, CInt n] m = (CInt 0, m2)"
    "pbufs m2 = pbufs m" "priv m2 = priv m"
    "bytes m2 = (\<lambda>i. if a \<le> i \<and> i < a + nat n then bs ! (i - a) else bytes m i)"
    using assms(1,5) by (simp add: Let_def)
  have "unat (of_int n :: 16 word) = nat n"
    using assms(3,6) by (simp add: unat_eq_nat_uint uint_word_of_int_eq take_bit_int_eq_self)
  then have "chain_bytes m2 p = Some (bytes_at m2 a (nat n))"
    using assms(1,2,5) by (simp add: chain_bytes_last m2(2) empty_pbuf_def)
  moreover have "bytes_at m2 a (nat n) = take (nat n) bs"
    using assms(3,4) by (intro nth_equalityI) (auto simp: bytes_at_def m2(4))
  ultimately show ?thesis using m2(1,3) by (simp add: sample_live_def)
qed

lemma sample_laws: "pbuf_laws (sample_lib cap) sample_live"
  unfolding pbuf_laws_def
proof (rule exI [of _ "sample_alloc cap"], rule exI [of _ sample_take], rule exI [of _ sample_free], intro conjI allI impI)
  fix m layer kind and n :: int
  assume n: "0 \<le> n \<and> n < 65536"
  show "\<exists>p m1. sample_alloc cap [CInt layer, CInt n, CInt kind] m = (CPtr p, m1) \<and>
    (if p = 0 then sample_live m1 = sample_live m
     else p \<notin> sample_live m \<and> sample_live m1 = insert p (sample_live m) \<and>
       (\<forall>bs. n \<le> int (length bs) \<longrightarrow>
          (\<exists>m2. sample_take [CPtr p, CBuf bs, CInt n] m1 = (CInt 0, m2) \<and> sample_live m2 = sample_live m1 \<and>
             chain_bytes m2 p = Some (take (nat n) bs))))"
  proof (cases "cap \<le> length (priv m) \<or> 64 < n")
    case False
    let ?p = "fresh_pbuf m"
    let ?m = "m\<lparr>pbufs := (pbufs m)(?p := empty_pbuf\<lparr>payload := 64 * ?p, tot_len := of_int n, len := of_int n\<rparr>),
                priv := ?p # priv m\<rparr>"
    have "\<exists>m2. sample_take [CPtr ?p, CBuf bs, CInt n] ?m = (CInt 0, m2) \<and> sample_live m2 = sample_live ?m \<and>
        chain_bytes m2 ?p = Some (take (nat n) bs)" if "n \<le> int (length bs)" for bs
      by (rule sample_take_bytes) (use n that in \<open>simp_all add: fresh_pbuf_def\<close>)
    then show ?thesis
      using False fresh_pbuf_notin [of m]
      by (intro exI [of _ ?p] exI [of _ ?m]) (simp add: Let_def sample_live_def fresh_pbuf_def del: sample_take.simps)
  qed (auto simp: sample_live_def)
next
  fix m :: sample_mem and p
  assume "p \<in> sample_live m"
  show "\<exists>m1 k. sample_free [CPtr p] m = (CInt k, m1) \<and> sample_live m1 = sample_live m - {p}"
    by (auto simp: sample_live_def)
qed (auto simp: sample_lib_def)

end
