(* ===== verification/UdpSocket.thy ===== *)
theory UdpSocket imports SampleLibrary begin

text \<open>
  \<^verbatim>\<open>lwip_py/stack/udp_socket.py\<close>. The state of an operation is the shared memory
  and the socket object. Callables are numbers: the one installed for the C side is the
  socket's \<open>_recv_callback\<close>, the user's is called through a parameter and may use the
  socket in turn.
\<close>

section \<open>The class\<close>

record udp_socket =
  sock_allocator :: allocator
  pcb :: py_val
  rx_callback :: "nat option"
  udp_new_ip_type :: c_function
  udp_bind :: c_function
  udp_recv :: c_function
  udp_send_to :: c_function
  internal_callback :: py_val
  socket_id :: nat  \<comment> \<open>identity of the object\<close>

type_synonym 'l udp_state = "'l cmem \<times> udp_socket"

definition udp_socket_init :: "'l lwip_lib \<Rightarrow> allocator \<Rightarrow> nat \<Rightarrow> udp_socket res" where
  "udp_socket_init lwip allocator ident =
     res_bind (wrap_function lwip ''udp_new_ip_type'' (Some (POINTER ''_UdpPcb'')) (Some [c_uint8])) (\<lambda>new_fn.
     res_bind (wrap_function lwip ''udp_bind'' (Some c_int8)
                 (Some [POINTER ''_UdpPcb'', POINTER ''IpV4Addr'', c_uint16])) (\<lambda>bind_fn.
     res_bind (wrap_function lwip ''udp_recv'' None (Some [POINTER ''_UdpPcb'', CFUNC, c_void_p])) (\<lambda>recv_fn.
     res_bind (wrap_function lwip ''udp_sendto'' (Some c_int8)
                 (Some [POINTER ''_UdpPcb'', POINTER ''PBuf'', POINTER ''IpV4Addr'', c_uint16])) (\<lambda>send_fn.
     Inr \<lparr>sock_allocator = allocator, pcb = PyNone, rx_callback = None, udp_new_ip_type = new_fn,
          udp_bind = bind_fn, udp_recv = recv_fn, udp_send_to = send_fn, internal_callback = PyNone,
          socket_id = ident\<rparr>))))"

definition get_socket :: "('l udp_state, udp_socket) py" where
  "get_socket = (\<lambda>(m, s). (Inr s, (m, s)))"

definition set_socket :: "(udp_socket \<Rightarrow> udp_socket) \<Rightarrow> ('l udp_state, unit) py" where
  "set_socket f = (\<lambda>(m, s). (Inr (), (m, f s)))"

text \<open>
  A structure object made by Python lives at an address of its own; \<open>new_ip4\<close> gives the one
  of an \<^verbatim>\<open>IpV4Addr\<close>.
\<close>

definition put_ip4 :: "nat \<Rightarrow> ip_v4_addr \<Rightarrow> ('l udp_state, py_val) py" where
  "put_ip4 a ip = (\<lambda>(m, s). (Inr (PyPtr ''IpV4Addr'' a), (m\<lparr>ip4s := (ip4s m)(a := ip)\<rparr>, s)))"

text \<open>
  \<^verbatim>\<open>bind\<close>, from its end: the installation of the callback, the library's bind,
  and the whole. The test \<^verbatim>\<open>if not self._pcb\<close> follows a
  \<^verbatim>\<open>.contents\<close> that has raised for \<open>NULL\<close> before.
\<close>

definition install_callback :: "'l lwip_lib \<Rightarrow> py_val \<Rightarrow> ('l udp_state, unit) py" where
  "install_callback lwip p =
     py_bind (set_socket (\<lambda>s. s\<lparr>internal_callback := PyFunc (Thunk (Recv_callback (socket_id s)))\<rparr>)) (\<lambda>_.
     py_bind get_socket (\<lambda>s.
     py_bind (on_fst (call_function lwip (udp_recv s) [p, internal_callback s, PyNone])) (\<lambda>_.
     py_return ())))"

definition bind_pcb :: "'l lwip_lib \<Rightarrow> py_val \<Rightarrow> py_val \<Rightarrow> int \<Rightarrow> ('l udp_state, unit) py" where
  "bind_pcb lwip p ip_address port =
     py_bind get_socket (\<lambda>s.
     py_bind (on_fst (call_function lwip (udp_bind s) [p, ip_address, PyInt port])) (\<lambda>bind_result.
     if int_true bind_result
     then py_raise (Stack_exc (StackException (case bind_result of PyInt n \<Rightarrow> n | _ \<Rightarrow> 0)))
     else install_callback lwip p))"

definition bind ::
  "'l lwip_lib \<Rightarrow> nat \<Rightarrow> string \<times> int \<Rightarrow> ('l udp_state, unit) py" where
  "bind lwip new_ip4 end_point =
     py_bind get_socket (\<lambda>s.
     let ip_type_v4 = 0 in
     py_bind (on_fst (py_bind (call_function lwip (udp_new_ip_type s) [PyInt ip_type_v4]) contents)) (\<lambda>p.
     py_bind (set_socket (\<lambda>s. s\<lparr>pcb := p\<rparr>)) (\<lambda>_.
     if \<not> int_true p then py_raise (Stack_exc AllocationError)
     else
       (case end_point of (ip_address_str, port) \<Rightarrow>
         py_bind
           (if ip_address_str \<noteq> ''''
            then py_bind (of_res (ip_v4_init ip_address_str)) (put_ip4 new_ip4)
            else py_return PyNone) (\<lambda>ip_address.
         bind_pcb lwip p ip_address port)))))"

definition send_to ::
  "'l lwip_lib \<Rightarrow> py_val \<Rightarrow> py_val \<Rightarrow> int \<Rightarrow> ('l udp_state, unit) py" where
  "send_to lwip data_to_send ip_address port =
     py_bind get_socket (\<lambda>s.
     py_bind (on_fst (allocate_transport_pbuf_from_data lwip (sock_allocator s) data_to_send None)) (\<lambda>pbuf_to_send.
     if int_true pbuf_to_send then
       py_bind (on_fst (call_function lwip (udp_send_to s) [pcb s, pbuf_to_send, ip_address, PyInt port])) (\<lambda>send_result.
       if int_true send_result
       then py_raise (Stack_exc (StackException (case send_result of PyInt n \<Rightarrow> n | _ \<Rightarrow> 0)))
       else py_return ())
     else py_raise (Stack_exc AllocationError)))"

definition set_recv_callback :: "nat option \<Rightarrow> ('l udp_state, unit) py" where
  "set_recv_callback callback = set_socket (\<lambda>s. s\<lparr>rx_callback := callback\<rparr>)"

text \<open>
  \<^verbatim>\<open>_recv_callback\<close>: the bytes of the pbuf's own segment and the sender's address
  are copied, the pbuf is freed, then the user's callable is called with four arguments.
  \<open>call\<close> is what calling a callable does; it may act on objects of its own (\<open>'o\<close>) beside the socket.
\<close>

definition recv_callback ::
  "'l lwip_lib \<Rightarrow> (nat \<Rightarrow> nat \<Rightarrow> byte list \<Rightarrow> ip_v4_addr \<Rightarrow> int \<Rightarrow> ('l udp_state \<times> 'o, unit) py) \<Rightarrow>
   nat \<Rightarrow> nat \<Rightarrow> int \<Rightarrow> ('l udp_state \<times> 'o, unit) py" where
  "recv_callback lwip call pbuf_ptr addr_ptr port =
     py_bind (contents (PyPtr ''PBuf'' pbuf_ptr)) (\<lambda>_.
     py_bind (contents (PyPtr ''IpV4Addr'' addr_ptr)) (\<lambda>_.
     py_bind (on_fst (\<lambda>(m, s).
        (Inr (payload (pbufs m pbuf_ptr), ip4s m addr_ptr), (m, s))))
       (\<lambda>(payload_ptr, addr_copy).
     py_bind (contents (PyPtr ''c_uint8_Array'' payload_ptr)) (\<lambda>_.
     py_bind (on_fst (\<lambda>(m, s). (Inr (bytes_at m payload_ptr (unat (len (pbufs m pbuf_ptr)))), (m, s)))) (\<lambda>payload_copy.
     py_bind (on_fst get_socket) (\<lambda>s.
     py_bind (on_fst (on_fst (free_pbuf lwip (sock_allocator s) (PyPtr ''PBuf'' pbuf_ptr)))) (\<lambda>_.
     py_bind (on_fst get_socket) (\<lambda>s.
     case rx_callback s of
       None \<Rightarrow> py_return ()
     | Some f \<Rightarrow> call f (socket_id s) payload_copy addr_copy port))))))))"

end
