(* ===== verification/UdpProperties.thy ===== *)
theory UdpProperties imports UdpSocket begin

text \<open>
  What the socket does with the library's memory: how a datagram gets in and out, and what
  happens to its pbuf. The laws of the library are hypotheses; the sample library satisfies
  them.
\<close>

section \<open>Calls that raise\<close>

lemma from_param_exc: "from_param t v = Inl e \<Longrightarrow> e = ArgumentError"
  by (induction t v rule: from_param.induct) (auto split: if_splits)

lemma call_function_exc:
  assumes "call_function lib f args m = (Inl e, m')"
  shows "e \<in> {AttributeError, TypeError, ArgumentError} \<and> m' = m"
proof -
  have "e' = ArgumentError" if "seq_res (map2 from_param ts vs) = Inl e'" for ts vs e'
    using seq_res_Inl_in [OF that] from_param_exc by (auto simp: in_set_zip)
  with assms show ?thesis
    by (auto simp: call_function_def split: option.splits prod.splits if_splits sum.splits)
qed

text \<open>The documented behaviour of \<^verbatim>\<open>udp_sendto\<close>: it never takes the caller's pbuf.\<close>

definition sendto_law :: "'l lwip_lib \<Rightarrow> ('l cmem \<Rightarrow> nat set) \<Rightarrow> bool" where
  "sendto_law lwip live \<longleftrightarrow>
     (\<exists>f. lwip ''udp_sendto'' = Some f \<and>
        (\<forall>cs m. \<exists>k m'. f cs m = (CInt k, m') \<and> live m' = live m))"

text \<open>A socket made by the stack of the library \<open>lwip\<close>.\<close>

definition socket_of :: "'l lwip_lib \<Rightarrow> udp_socket \<Rightarrow> bool" where
  "socket_of lwip s \<longleftrightarrow>
     allocator_init lwip = Inr (sock_allocator s) \<and>
     (\<exists>s0. udp_socket_init lwip (sock_allocator s) (socket_id s) = Inr s0 \<and>
        udp_send_to s = udp_send_to s0 \<and> udp_new_ip_type s = udp_new_ip_type s0 \<and>
        udp_bind s = udp_bind s0 \<and> udp_recv s = udp_recv s0) \<and>
     (pcb s = PyNone \<or> (\<exists>a. pcb s = PyPtr ''_UdpPcb'' a))"

lemma socket_of_send:
  "socket_of lwip s \<Longrightarrow> udp_send_to s = \<lparr>func_name = ''udp_sendto'', restype = Some c_int8,
     argtypes = Some [POINTER ''_UdpPcb'', POINTER ''PBuf'', POINTER ''IpV4Addr'', c_uint16]\<rparr>"
  by (auto simp: socket_of_def udp_socket_init_def res_bind_Inr_iff wrap_function_def split: option.splits)

lemma call_sendto:
  assumes law: "sendto_law lwip live" and s: "socket_of lwip s"
  obtains k m' where "call_function lwip (udp_send_to s) [pcb s, PyPtr ''PBuf'' p, PyPtr ''IpV4Addr'' a, PyInt port] m
      = (Inr (PyInt k), m')" and "live m' = live m" and "-128 \<le> k" and "k < 128"
proof -
  obtain f where f: "lwip ''udp_sendto'' = Some f" "\<forall>cs m. \<exists>k m'. f cs m = (CInt k, m') \<and> live m' = live m"
    using law by (auto simp: sendto_law_def)
  obtain q where q: "from_param (POINTER ''_UdpPcb'') (pcb s) = Inr (CPtr q)"
    using s by (auto simp: socket_of_def)
  obtain k m' where k: "f [CPtr q, CPtr p, CPtr a, CInt (wrap_unsigned 16 port)] m = (CInt k, m')" "live m' = live m"
    using f(2) by blast
  show thesis
  proof (rule that)
    show "call_function lwip (udp_send_to s) [pcb s, PyPtr ''PBuf'' p, PyPtr ''IpV4Addr'' a, PyInt port] m
      = (Inr (PyInt (wrap_signed 8 k)), m')"
      by (simp add: call_function_def socket_of_send [OF s] f(1) q k(1))
    show "live m' = live m" by (rule k(2))
    show "-128 \<le> wrap_signed 8 k" and "wrap_signed 8 k < 128" by (simp_all add: wrap_signed_def)
  qed
qed

section \<open>Sending\<close>

lemma send_to_effect:
  assumes "pbuf_laws lwip live" and "sendto_law lwip live" and "socket_of lwip s"
    and "readable_bytes data = Some bs"
    and "send_to lwip data (PyPtr ''IpV4Addr'' a) port (m, s) = (r, (m', s'))"
  shows "s' = s \<and>
    (if r = Inl ValueError then live m' = live m
     else \<exists>p m1 k. p \<noteq> 0 \<and> p \<notin> live m \<and> live m1 = insert p (live m) \<and> live m' = live m1 \<and>
       allocate_transport_pbuf_from_data lwip (sock_allocator s) data None m = (Inr (PyPtr ''PBuf'' p), m1) \<and>
       chain_bytes m1 p = Some (take (length bs mod 65536) bs) \<and>
       call_function lwip (udp_send_to s) [pcb s, PyPtr ''PBuf'' p, PyPtr ''IpV4Addr'' a, PyInt port] m1 = (Inr (PyInt k), m') \<and>
       -128 \<le> k \<and> k < 128 \<and> r = (if k \<noteq> 0 then Inl (Stack_exc (StackException k)) else Inr ()))"
proof -
  obtain q m1 where alloc: "allocate_transport_pbuf_from_data lwip (sock_allocator s) data None m = (q, m1)"
    by force
  have al: "allocated live bs m q m1"
    by (rule transport_allocated [OF assms(1) _ assms(4) alloc]) (use assms(3) in \<open>simp add: socket_of_def\<close>)
  show ?thesis
  proof (cases q)
    case (Inl e)
    then show ?thesis
      using assms(5) al alloc by (auto simp: send_to_def get_socket_def py_simps allocated_def)
  next
    case (Inr v)
    then obtain p where p: "v = PyPtr ''PBuf'' p" "p \<noteq> 0" "p \<notin> live m" "live m1 = insert p (live m)"
      "chain_bytes m1 p = Some (take (length bs mod 65536) bs)"
      using al by (auto simp: allocated_def)
    obtain k m2 where k: "call_function lwip (udp_send_to s) [pcb s, PyPtr ''PBuf'' p, PyPtr ''IpV4Addr'' a, PyInt port] m1
      = (Inr (PyInt k), m2)" "live m2 = live m1" "-128 \<le> k" "k < 128"
      using call_sendto [OF assms(2,3)] by metis
    have "(r, (m', s')) = (if k \<noteq> 0 then Inl (Stack_exc (StackException k)) else Inr (), (m2, s))"
      using assms(5) by (cases "k = 0") (simp_all add: send_to_def get_socket_def py_simps alloc Inr p(1) k(1))
    with p k alloc Inr show ?thesis by auto
  qed
qed


definition sample_socket :: "nat list lwip_lib \<Rightarrow> udp_socket" where
  "sample_socket lwip =
     (case allocator_init lwip of
        Inr a \<Rightarrow> (case udp_socket_init lwip a 1 of Inr s \<Rightarrow> s\<lparr>pcb := PyPtr ''_UdpPcb'' 9, rx_callback := Some 7\<rparr> | Inl e \<Rightarrow> undefined)
      | Inl e \<Rightarrow> undefined)"

lemma sample_socket_of: "socket_of (sample_lib cap) (sample_socket (sample_lib cap))"
  by (simp add: socket_of_def sample_socket_def allocator_init_eq [OF sample_laws] udp_socket_init_def
      wrap_function_def sample_lib_def)

lemma sample_sendto_law: "sendto_law (sample_lib cap) sample_live"
  by (auto simp: sendto_law_def sample_lib_def)

text \<open>With room for one pbuf, the first datagram is sent and the second one is refused.\<close>

definition send_ping :: "(nat list udp_state, unit) py" where
  "send_ping = send_to (sample_lib 1) (PyBytes [0, 0, 0, 1]) (PyPtr ''IpV4Addr'' 5) 1000"


text \<open>
  A \<^verbatim>\<open>bytearray\<close>, the type the documentation asks for, cannot be sent: ctypes does
  not convert it to a \<^verbatim>\<open>void\<close> pointer, and the exception comes after the pbuf has been
  allocated, which is then lost.
\<close>

lemma send_to_bytearray:
  assumes "pbuf_laws lwip live" and "socket_of lwip s"
    and "send_to lwip (PyByteArray bs) ip_address port (m, s) = (r, (m', s'))"
  shows "r = Inl ArgumentError \<and> s' = s \<and>
    (live m' = live m \<or> (\<exists>p. p \<noteq> 0 \<and> p \<notin> live m \<and> live m' = insert p (live m)))"
proof -
  let ?a = "sock_allocator s" and ?n = "int (length bs)"
  have a: "allocator_init lwip = Inr ?a" using assms(2) by (simp add: socket_of_def)
  obtain p m1 where p: "call_function lwip (pbuf_alloc ?a) [PyInt 74, PyInt ?n, PyInt 640] m = (Inr (PyPtr ''PBuf'' p), m1)"
    "p = 0 \<Longrightarrow> live m1 = live m" "p \<noteq> 0 \<Longrightarrow> p \<notin> live m \<and> live m1 = insert p (live m)"
    by (rule call_pbuf_alloc [OF assms(1) a, of 74 640 ?n m]) simp_all
  obtain take_fn where t: "lwip ''pbuf_take'' = Some take_fn"
    using assms(1) by (auto simp: pbuf_laws_def)
  have a': "pbuf_take ?a = \<lparr>func_name = ''pbuf_take'', restype = Some c_int8, argtypes = Some [POINTER ''PBuf'', c_void_p, c_uint16]\<rparr>"
    using a [unfolded allocator_init_eq [OF assms(1)], simplified, symmetric] by simp
  have "call_function lwip (pbuf_take ?a) [PyPtr ''PBuf'' p, PyByteArray bs, PyInt ?n] m1 = (Inl ArgumentError, m1)"
    by (simp add: call_function_def a' t)
  then have "r = Inl ArgumentError \<and> m' = m1 \<and> s' = s"
    using assms(3)
    by (simp add: send_to_def get_socket_def allocate_transport_pbuf_from_data_def size_or_len_def py_simps p(1))
  with p(2,3) show ?thesis by (cases "p = 0") auto
qed

section \<open>Receiving\<close>

lemma recv_callback_effect:
  assumes "pbuf_laws lwip live" and "socket_of lwip s" and "rx_callback s = Some f"
    and "p \<noteq> 0" and "a \<noteq> 0" and "p \<in> live m" and "chain_bytes m p = Some bs"
  shows "\<exists>m1 chunk rest. recv_callback lwip call p a port ((m, s), ob) = call f (socket_id s) chunk (ip4s m a) port ((m1, s), ob) \<and>
    live m1 = live m - {p} \<and> bs = chunk @ rest \<and> length chunk = unat (len (pbufs m p)) \<and>
    chain_bytes m (next_pbuf (pbufs m p)) = Some rest \<and> (next_pbuf (pbufs m p) = 0 \<longrightarrow> chunk = bs)"
proof -
  obtain rest where rest: "bs = bytes_at m (payload (pbufs m p)) (unat (len (pbufs m p))) @ rest"
    "chain_bytes m (next_pbuf (pbufs m p)) = Some rest"
    using chain_bytes_prefix [OF assms(7,4)] by blast
  obtain free m1 k where free: "lwip ''pbuf_free'' = Some free" "free [CPtr p] m = (CInt k, m1)"
    "live m1 = live m - {p}"
    using assms(1,6) unfolding pbuf_laws_def by metis
  have a: "pbuf_free (sock_allocator s) = \<lparr>func_name = ''pbuf_free'', restype = Some c_uint8, argtypes = Some [POINTER ''PBuf'']\<rparr>"
    using socket_of_def [of lwip s] assms(2) allocator_init_eq [OF assms(1)]
    by (metis (no_types, lifting) allocator.select_convs(3) sum.inject(2))
  have "free_pbuf lwip (sock_allocator s) (PyPtr ''PBuf'' p) m = (Inr (PyInt (wrap_unsigned 8 k)), m1)"
    by (simp add: free_pbuf_def call_function_def a free(1,2))
  then have "recv_callback lwip call p a port ((m, s), ob) =
      call f (socket_id s) (bytes_at m (payload (pbufs m p)) (unat (len (pbufs m p)))) (ip4s m a) port ((m1, s), ob)"
    using assms(3,4,5) chain_bytes_payload [OF assms(7,4)] by (simp add: recv_callback_def get_socket_def py_simps)
  moreover have "next_pbuf (pbufs m p) = 0 \<Longrightarrow> rest = []" using rest(2) by simp
  ultimately show ?thesis
    by (intro exI [of _ m1] exI [of _ "bytes_at m (payload (pbufs m p)) (unat (len (pbufs m p)))"] exI [of _ rest]
        conjI impI) (simp_all only: rest free(3) length_bytes_at append_Nil2)
qed

text \<open>
  C15: a received datagram. The user's callable is called exactly once, with the socket, a copy
  of the bytes, the sender's address and its port, and only after the pbuf has been given
  back to the library. The copy is the pbuf's own segment: for a datagram in a chain of
  several segments the bytes of the others are lost.
\<close>

theorem recv_callback_delivers:
  assumes "pbuf_laws lwip live" and "socket_of lwip s" and "rx_callback s = Some f"
    and "p \<noteq> 0" and "a \<noteq> 0" and "p \<in> live m" and "chain_bytes m p = Some bs"
  shows "\<exists>m1 chunk rest. recv_callback lwip call p a port ((m, s), ob) = call f (socket_id s) chunk (ip4s m a) port ((m1, s), ob) \<and>
    live m1 = live m - {p} \<and> bs = chunk @ rest \<and> length chunk = unat (len (pbufs m p)) \<and>
    chain_bytes m (next_pbuf (pbufs m p)) = Some rest \<and> (next_pbuf (pbufs m p) = 0 \<longrightarrow> chunk = bs)"
  by (rule recv_callback_effect [OF assms])

text \<open>A datagram of three bytes in two segments; the callable raises an exception that shows what it got.\<close>

definition split_mem :: sample_mem where
  "split_mem = sample_mem\<lparr>
     pbufs := (pbufs sample_mem)(1 := empty_pbuf\<lparr>next_pbuf := 2, payload := 10, tot_len := 3, len := 2\<rparr>,
                                 2 := empty_pbuf\<lparr>payload := 20, tot_len := 1, len := 1\<rparr>),
     bytes := (bytes sample_mem)(10 := 5, 11 := 6, 20 := 7), priv := [1]\<rparr>"

definition show_length :: "nat \<Rightarrow> nat \<Rightarrow> byte list \<Rightarrow> ip_v4_addr \<Rightarrow> int \<Rightarrow> (nat list udp_state \<times> unit, unit) py" where
  "show_length f sock data ip port = py_raise (AppError (length data))"

lemma split_pbufs:
  "next_pbuf (pbufs split_mem 1) = 2" "payload (pbufs split_mem 1) = 10" "unat (len (pbufs split_mem 1)) = 2"
  "next_pbuf (pbufs split_mem 2) = 0" "payload (pbufs split_mem 2) = 20" "unat (len (pbufs split_mem 2)) = 1"
  by (simp_all add: split_mem_def empty_pbuf_def)

theorem recv_callback_delivers_witness:
  "chain_bytes split_mem 1 = Some [5, 6, 7] \<and>
   fst (recv_callback (sample_lib 1) show_length 1 5 1000 ((split_mem, sample_socket (sample_lib 1)), ())) = Inl (AppError 2)"
proof -
  have "bytes_at split_mem 10 2 = [5, 6]" "bytes_at split_mem 20 1 = [7]" by code_simp+
  then have chain: "chain_bytes split_mem 1 = Some [5, 6, 7]"
    using split_pbufs by (simp add: chain_bytes.simps [of split_mem "Suc 0"] chain_bytes.simps [of split_mem 2])
  have s: "rx_callback (sample_socket (sample_lib 1)) = Some 7" "1 \<in> sample_live split_mem"
    "unat (len (pbufs split_mem 1)) = 2"
    by code_simp+
  from recv_callback_delivers [OF sample_laws sample_socket_of s(1) _ _ s(2) chain, of 5 show_length 1000]
  obtain m1 chunk where "recv_callback (sample_lib 1) show_length 1 5 1000 ((split_mem, sample_socket (sample_lib 1)), ()) =
      show_length 7 (socket_id (sample_socket (sample_lib 1))) chunk (ip4s split_mem 5) 1000
        ((m1, sample_socket (sample_lib 1)), ())" and "length chunk = 2"
    unfolding s(3) by (metis zero_neq_one zero_neq_numeral)
  with chain show ?thesis by (simp add: show_length_def py_raise_def)
qed

section \<open>Binding\<close>

lemma socket_of_bind: "socket_of lwip s \<Longrightarrow> restype (udp_bind s) = Some c_int8"
  by (auto simp: socket_of_def udp_socket_init_def res_bind_Inr_iff wrap_function_def split: option.splits)

definition ctypes_exc :: "py_exc \<Rightarrow> bool" where
  "ctypes_exc e \<longleftrightarrow> e \<in> {AttributeError, TypeError, ArgumentError, ValueError}"

lemma install_callback_outcome:
  assumes "install_callback lwip p (m, s) = (r, (m', s'))"
  shows "s' = s\<lparr>internal_callback := PyFunc (Thunk (Recv_callback (socket_id s)))\<rparr> \<and> (\<forall>e. r = Inl e \<longrightarrow> ctypes_exc e)"
proof -
  let ?s = "s\<lparr>internal_callback := PyFunc (Thunk (Recv_callback (socket_id s)))\<rparr>"
  obtain q m1 where q: "call_function lwip (udp_recv ?s) [p, internal_callback ?s, PyNone] m = (q, m1)" by force
  then show ?thesis
    using assms call_function_exc [of lwip "udp_recv ?s" "[p, internal_callback ?s, PyNone]" m _ m1]
    by (cases q) (auto simp: install_callback_def set_socket_def get_socket_def py_simps ctypes_exc_def)
qed

lemma bind_pcb_outcome:
  assumes "restype (udp_bind s) = Some c_int8" and "bind_pcb lwip p ip_address port (m, s) = (r, (m', s'))"
  shows "(s' = s \<and> (\<exists>e. r = Inl e \<and> ctypes_exc e)) \<or>
    (s' = s \<and> (\<exists>code. r = Inl (Stack_exc (StackException code)) \<and> code \<noteq> 0)) \<or>
    (s' = s\<lparr>internal_callback := PyFunc (Thunk (Recv_callback (socket_id s)))\<rparr> \<and> (\<forall>e. r = Inl e \<longrightarrow> ctypes_exc e))"
proof -
  obtain b m1 where b: "call_function lwip (udp_bind s) [p, ip_address, PyInt port] m = (b, m1)" by force
  show ?thesis
  proof (cases b)
    case (Inl e)
    then show ?thesis
      using assms(2) b call_function_exc [OF b [unfolded Inl]]
      by (auto simp: bind_pcb_def get_socket_def py_simps ctypes_exc_def)
  next
    case (Inr v)
    show ?thesis
    proof (cases "int_true v")
      case True
      have "v = PyNone \<or> (\<exists>n. v = PyInt n \<and> -128 \<le> n \<and> n < 128)"
        by (rule call_int8 [OF b [unfolded Inr] assms(1)])
      with True obtain n where "v = PyInt n" "n \<noteq> 0" by fastforce
      then show ?thesis
        using assms(2) b Inr by (auto simp: bind_pcb_def get_socket_def py_simps)
    next
      case False
      then have "install_callback lwip p (m1, s) = (r, (m', s'))"
        using assms(2) b Inr by (simp add: bind_pcb_def get_socket_def py_simps)
      from install_callback_outcome [OF this] show ?thesis by blast
    qed
  qed
qed



end
