(* ===== verification/NetIf.thy ===== *)
theory NetIf imports UdpProperties begin

text \<open>
  \<^verbatim>\<open>lwip_py/stack/netif.py\<close>: a network interface. The state of an operation is the
  shared memory, in which the low-level structure lives at the address \<open>interface\<close>, and the
  Python object. The user's callables are numbers that are called through a parameter.
\<close>

section \<open>The class\<close>

definition flag_up :: int where "flag_up = 1"
definition flag_broadcast :: int where "flag_broadcast = 2"
definition flag_link_up :: int where "flag_link_up = 4"
definition flag_etharp :: int where "flag_etharp = 8"
definition flag_ethernet :: int where "flag_ethernet = 16"
definition flag_igmp :: int where "flag_igmp = 32"

lemmas flag_defs = flag_up_def flag_broadcast_def flag_link_up_def flag_etharp_def flag_ethernet_def flag_igmp_def

record netif =
  netif_name :: string
  netif_stack :: nat
  netif_add_fn :: c_function
  etharp_output_fn :: c_function
  ip_input_fn :: c_function
  interface :: nat
  netif_input :: c_fun
  netif_output :: c_fun
  netif_link_output :: c_fun
  user_link_output :: "nat option"
  netif_status :: c_fun
  user_status :: "nat option"
  netif_link_status :: c_fun
  user_link_status :: "nat option"
  py_object_at :: nat
  netif_id :: nat  \<comment> \<open>identity of the object\<close>

type_synonym 'l netif_state = "'l cmem \<times> netif"

text \<open>A structure object of ctypes starts as zeros.\<close>

definition zero_netif :: lwip_netif where
  "zero_netif = \<lparr>next_netif = 0, ip_addr = \<lparr>addr = 0\<rparr>, netmask = \<lparr>addr = 0\<rparr>, gw = \<lparr>addr = 0\<rparr>,
     input = Null_fun, output = Null_fun, linkoutput = Null_fun, status_callback = Null_fun,
     link_callback = Null_fun, state = 0, mtu = 0, hwaddr = replicate 6 0, hwaddr_len = 0, flags = 0,
     name = replicate 2 0, num = 0\<rparr>"

text \<open>
  \<^verbatim>\<open>NetIf.__init__\<close>; \<open>i\<close> and \<open>po\<close> are the addresses of the structure and of the
  \<^verbatim>\<open>py_object\<close> that \<open>add\<close> makes.
\<close>

definition netif_init ::
  "'l lwip_lib \<Rightarrow> string \<Rightarrow> nat \<Rightarrow> nat \<Rightarrow> nat \<Rightarrow> nat \<Rightarrow> ('l cmem, netif) py" where
  "netif_init lwip nm stk i po ident =
     py_bind (of_res (wrap_function lwip ''netif_add'' (Some (POINTER ''_LwipNetIf''))
        (Some [POINTER ''_LwipNetIf'', POINTER ''IpV4Addr'', POINTER ''IpV4Addr'', POINTER ''IpV4Addr'',
               c_void_p, CFUNC, CFUNC]))) (\<lambda>add_fn.
     py_bind (of_res (wrap_function lwip ''etharp_output'' (Some c_int8)
        (Some [POINTER ''_LwipNetIf'', POINTER ''PBuf'', POINTER ''IpV4Addr'']))) (\<lambda>etharp_fn.
     py_bind (of_res (wrap_function lwip ''ethernet_input'' (Some c_int8)
        (Some [POINTER ''PBuf'', POINTER ''_LwipNetIf'']))) (\<lambda>input_fn.
     \<lambda>m. (Inr \<lparr>netif_name = nm, netif_stack = stk, netif_add_fn = add_fn, etharp_output_fn = etharp_fn,
              ip_input_fn = input_fn, interface = i, netif_input = Null_fun, netif_output = Null_fun,
              netif_link_output = Thunk (Link_output_wrapper ident), user_link_output = None,
              netif_status = Null_fun, user_status = None, netif_link_status = Null_fun,
              user_link_status = None, py_object_at = po, netif_id = ident\<rparr>,
           m\<lparr>netifs := (netifs m)(i := zero_netif)\<rparr>))))"

text \<open>Reading and writing the object and its structure.\<close>

definition get_netif :: "('l netif_state, netif) py" where
  "get_netif = (\<lambda>(m, n). (Inr n, (m, n)))"

definition set_netif :: "(netif \<Rightarrow> netif) \<Rightarrow> ('l netif_state, unit) py" where
  "set_netif f = (\<lambda>(m, n). (Inr (), (m, f n)))"

definition get_interface :: "('l netif_state, lwip_netif) py" where
  "get_interface = (\<lambda>(m, n). (Inr (netifs m (interface n)), (m, n)))"

definition set_interface :: "(lwip_netif \<Rightarrow> lwip_netif) \<Rightarrow> ('l netif_state, unit) py" where
  "set_interface f = (\<lambda>(m, n). (Inr (), (m\<lparr>netifs := (netifs m)(interface n := f (netifs m (interface n)))\<rparr>, n)))"

lemmas netif_access = get_netif_def set_netif_def get_interface_def set_interface_def

section \<open>Configuration\<close>

definition flags_str :: "int \<Rightarrow> string" where
  "flags_str fl =
     (let table = [(flag_up, ''UP''), (flag_broadcast, ''BROADCAST''), (flag_etharp, ''ETH_ARP''),
                   (flag_ethernet, ''ETH''), (flag_link_up, ''LINK''), (flag_igmp, ''IGMP'')]
      in str_join '', '' (map snd (filter (\<lambda>f. fl AND fst f \<noteq> 0) table)))"

definition netif_str :: "('l netif_state, string) py" where
  "netif_str =
     py_bind get_netif (\<lambda>n. py_bind get_interface (\<lambda>i.
     py_return (netif_name n @ '': flags='' @ py_str (uint (flags i)) @ ''<'' @ flags_str (uint (flags i)) @
       ''> inet '' @ int_ip_to_string (uint (addr (ip_addr i))) @
       '' netmask '' @ int_ip_to_string (uint (addr (netmask i))) @
       '' gw '' @ int_ip_to_string (uint (addr (gw i))))))"

definition set_output_callbacks :: "nat \<Rightarrow> nat option \<Rightarrow> ('l netif_state, unit) py" where
  "set_output_callbacks link_output output_cb =
     py_bind (set_netif (\<lambda>n. n\<lparr>netif_output :=
        (case output_cb of
           Some f \<Rightarrow> Thunk (User_callable f)
         | None \<Rightarrow> Thunk (Lib_function (func_name (etharp_output_fn n))))\<rparr>)) (\<lambda>_.
     py_bind get_netif (\<lambda>n.
     py_bind (set_interface (\<lambda>i. i\<lparr>output := netif_output n\<rparr>)) (\<lambda>_.
     py_bind (set_netif (\<lambda>n. n\<lparr>user_link_output := Some link_output\<rparr>)) (\<lambda>_.
     set_interface (\<lambda>i. i\<lparr>linkoutput := netif_link_output n\<rparr>)))))"

definition set_status_callbacks :: "nat option \<Rightarrow> nat option \<Rightarrow> ('l netif_state, unit) py" where
  "set_status_callbacks status_cb link_cb =
     py_bind (set_netif (\<lambda>n. n\<lparr>netif_status := Thunk (Status_callback_internal (netif_id n)),
                               user_status := status_cb\<rparr>)) (\<lambda>_.
     py_bind get_netif (\<lambda>n.
     py_bind (set_interface (\<lambda>i. i\<lparr>status_callback := netif_status n\<rparr>)) (\<lambda>_.
     py_bind (set_netif (\<lambda>n. n\<lparr>netif_link_status := Thunk (Link_status_callback_internal (netif_id n)),
                               user_link_status := link_cb\<rparr>)) (\<lambda>_.
     py_bind get_netif (\<lambda>n.
     set_interface (\<lambda>i. i\<lparr>link_callback := netif_link_status n\<rparr>))))))"

text \<open>
  The assignment of \<^verbatim>\<open>bytes\<close> to a \<^verbatim>\<open>c_char * 2\<close> field: a text of more than
  two characters is refused, a shorter one is followed by a zero byte.
\<close>

definition set_name :: "byte list \<Rightarrow> ('l netif_state, unit) py" where
  "set_name nm =
     (let s = takeWhile (\<lambda>b. b \<noteq> 0) nm in
      if 2 < length s then py_raise ValueError
      else set_interface (\<lambda>i. i\<lparr>name := s @ (if length s < 2 then 0 # drop (Suc (length s)) (name i) else [])\<rparr>))"

text \<open>\<^verbatim>\<open>add\<close>: the addresses are \<^verbatim>\<open>IpV4Addr\<close> objects or \<open>None\<close>.\<close>

definition add :: "'l lwip_lib \<Rightarrow> py_val \<Rightarrow> py_val \<Rightarrow> py_val \<Rightarrow> ('l netif_state, unit) py" where
  "add lwip ip_address nmask gateway =
     py_bind get_netif (\<lambda>n.
     py_bind (\<lambda>(m, n). (Inr (), (m\<lparr>py_objects := (py_objects m)(py_object_at n := netif_id n)\<rparr>, n))) (\<lambda>_.
     py_bind (set_netif (\<lambda>n. n\<lparr>netif_input := Thunk (Lib_function (func_name (ip_input_fn n)))\<rparr>)) (\<lambda>_.
     py_bind get_netif (\<lambda>n.
     py_bind (on_fst (call_function lwip (netif_add_fn n)
        [PyPtr ''_LwipNetIf'' (interface n), ip_address, nmask, gateway, PyPtr ''py_object'' (py_object_at n),
         PyFunc (Thunk (Report_netif_init (netif_id n))), PyFunc (netif_input n)])) (\<lambda>_.
     py_bind (set_interface (\<lambda>i. i\<lparr>hwaddr := [10, 11, 12, 13, 14, 15]\<rparr>)) (\<lambda>_.
     py_bind (set_interface (\<lambda>i. i\<lparr>hwaddr_len := 6\<rparr>)) (\<lambda>_.
     set_interface (\<lambda>i. i\<lparr>flags := 8\<rparr>))))))))"

text \<open>
  \<open>set_up\<close>, \<open>set_down\<close>, \<open>set_link_up\<close>, \<open>set_link_down\<close> and \<open>set_default\<close> are the same call of
  functions of different names.
\<close>

definition netif_call :: "'l lwip_lib \<Rightarrow> string \<Rightarrow> ('l netif_state, unit) py" where
  "netif_call lwip fname =
     py_bind (of_res (wrap_function lwip fname None (Some [POINTER ''_LwipNetIf'']))) (\<lambda>f.
     py_bind get_netif (\<lambda>n.
     py_bind (on_fst (call_function lwip f [PyPtr ''_LwipNetIf'' (interface n)])) (\<lambda>_. py_return ())))"

definition set_up :: "'l lwip_lib \<Rightarrow> ('l netif_state, unit) py" where
  "set_up lwip = netif_call lwip ''netif_set_up''"

definition set_down :: "'l lwip_lib \<Rightarrow> ('l netif_state, unit) py" where
  "set_down lwip = netif_call lwip ''netif_set_down''"

definition set_link_up :: "'l lwip_lib \<Rightarrow> ('l netif_state, unit) py" where
  "set_link_up lwip = netif_call lwip ''netif_set_link_up''"

definition set_link_down :: "'l lwip_lib \<Rightarrow> ('l netif_state, unit) py" where
  "set_link_down lwip = netif_call lwip ''netif_set_link_down''"

definition set_default :: "'l lwip_lib \<Rightarrow> ('l netif_state, unit) py" where
  "set_default lwip = netif_call lwip ''netif_set_default''"

definition set_etharp_flag :: "('l netif_state, unit) py" where
  "set_etharp_flag = (let etherarp_flag = 8 in set_interface (\<lambda>i. i\<lparr>flags := flags i OR etherarp_flag\<rparr>))"

definition get_address :: "('l netif_state, string) py" where
  "get_address = py_bind get_interface (\<lambda>i. py_return (int_ip_to_string (uint (addr (ip_addr i)))))"

section \<open>Data\<close>

text \<open>
  Calling the function pointer in the structure's field \<open>input\<close>: \<open>NULL\<close> is refused by ctypes;
  the one \<open>add\<close> hands to the library is the wrapped \<^verbatim>\<open>ethernet_input\<close>; \<open>other\<close> is
  what any other function does.
\<close>

definition call_input ::
  "'l lwip_lib \<Rightarrow> (c_fun \<Rightarrow> py_val list \<Rightarrow> ('l cmem, py_val) py) \<Rightarrow> py_val \<Rightarrow> ('l netif_state, unit) py" where
  "call_input lwip other incoming_pbuf =
     py_bind get_netif (\<lambda>n. py_bind get_interface (\<lambda>i.
     let args = [incoming_pbuf, PyPtr ''_LwipNetIf'' (interface n)] in
     py_bind (on_fst
       (case input i of
          Null_fun \<Rightarrow> py_raise ValueError
        | Thunk f \<Rightarrow>
            if f = Lib_function (func_name (ip_input_fn n)) then call_function lwip (ip_input_fn n) args
            else other (Thunk f) args)) (\<lambda>_. py_return ())))"

text \<open>
  \<^verbatim>\<open>input_data\<close>: \<^verbatim>\<open>from_buffer\<close> needs a writable buffer, which of Python's
  byte strings only a \<^verbatim>\<open>bytearray\<close> is. The allocator is a new one of the stack.
\<close>

fun array_from_buffer :: "py_val \<Rightarrow> py_val res" where
  "array_from_buffer (PyByteArray bs) = Inr (PyArray bs)"
| "array_from_buffer (PyArray bs) = Inr (PyArray bs)"
| "array_from_buffer _ = Inl TypeError"

definition input_data ::
  "'l lwip_lib \<Rightarrow> (c_fun \<Rightarrow> py_val list \<Rightarrow> ('l cmem, py_val) py) \<Rightarrow> py_val \<Rightarrow> ('l netif_state, unit) py" where
  "input_data lwip other incoming_data =
     py_bind (of_res (py_len incoming_data)) (\<lambda>n.
     py_bind (of_res (allocator_init lwip)) (\<lambda>allocator.
     py_bind (of_res (array_from_buffer incoming_data)) (\<lambda>array.
     py_bind (on_fst (allocate_raw_pbuf_from_data lwip allocator array (Some n))) (\<lambda>incoming_pbuf.
     call_input lwip other incoming_pbuf))))"

text \<open>
  \<^verbatim>\<open>_link_output_wrapper\<close>: the bytes of the pbuf's own segment are copied and handed
  to the user's callable together with the object that the C structure's field \<open>state\<close> refers
  to. The result is what C gets; \<open>None\<close> when no callable is set. The callable may also act on
  objects outside of the stack, of type \<open>'o\<close>.
\<close>

definition link_output_wrapper ::
  "(nat \<Rightarrow> nat \<Rightarrow> byte list \<Rightarrow> ('l netif_state \<times> 'o, unit) py) \<Rightarrow> nat \<Rightarrow> nat \<Rightarrow>
   ('l netif_state \<times> 'o, py_val) py" where
  "link_output_wrapper call netif_ptr pbuf_ptr =
     py_bind (on_fst get_netif) (\<lambda>n.
     case user_link_output n of
       None \<Rightarrow> py_return PyNone
     | Some f \<Rightarrow>
         py_bind (contents (PyPtr ''PBuf'' pbuf_ptr)) (\<lambda>_.
         py_bind (on_fst (\<lambda>(m, n). (Inr (payload (pbufs m pbuf_ptr)), (m, n)))) (\<lambda>payload_ptr.
         py_bind (contents (PyPtr ''c_uint8_Array'' payload_ptr)) (\<lambda>_.
         py_bind (on_fst (\<lambda>(m, n). (Inr (bytes_at m payload_ptr (unat (len (pbufs m pbuf_ptr)))), (m, n)))) (\<lambda>payload_to_send.
         py_bind (contents (PyPtr ''_LwipNetIf'' netif_ptr)) (\<lambda>_.
         py_bind (on_fst (\<lambda>(m, n). (Inr (state (netifs m netif_ptr)), (m, n)))) (\<lambda>st.
         py_bind (contents (PyPtr ''py_object'' st)) (\<lambda>_.
         py_bind (on_fst (\<lambda>(m, n). (Inr (py_objects m st), (m, n)))) (\<lambda>net_if.
         py_bind (call f net_if payload_to_send) (\<lambda>_. py_return (PyInt 0)))))))))))"

definition status_callback_internal ::
  "(nat \<Rightarrow> nat \<Rightarrow> ('l netif_state, unit) py) \<Rightarrow> ('l netif_state, unit) py" where
  "status_callback_internal call =
     py_bind get_netif (\<lambda>n. case user_status n of None \<Rightarrow> py_return () | Some f \<Rightarrow> call f (netif_id n))"

definition link_status_callback_internal ::
  "(nat \<Rightarrow> nat \<Rightarrow> ('l netif_state, unit) py) \<Rightarrow> ('l netif_state, unit) py" where
  "link_status_callback_internal call =
     py_bind get_netif (\<lambda>n. case user_link_status n of None \<Rightarrow> py_return () | Some f \<Rightarrow> call f (netif_id n))"

end
