(* ===== verification/NetIfProperties.thy ===== *)
theory NetIfProperties imports NetIf begin

text \<open>
  What an interface shows of its state, and what happens to the frames that pass it.
\<close>

section \<open>An interface of a library\<close>

definition netif_of :: "'l lwip_lib \<Rightarrow> netif \<Rightarrow> bool" where
  "netif_of lwip n \<longleftrightarrow>
     (\<exists>m n0 m0. netif_init lwip (netif_name n) (netif_stack n) (interface n) (py_object_at n) (netif_id n) m = (Inr n0, m0) \<and>
        netif_add_fn n = netif_add_fn n0 \<and> etharp_output_fn n = etharp_output_fn n0 \<and>
        ip_input_fn n = ip_input_fn n0) \<and>
     interface n \<noteq> 0 \<and> py_object_at n \<noteq> 0"

lemma netif_of_fns:
  assumes "netif_of lwip n"
  shows "netif_add_fn n = \<lparr>func_name = ''netif_add'', restype = Some (POINTER ''_LwipNetIf''),
      argtypes = Some [POINTER ''_LwipNetIf'', POINTER ''IpV4Addr'', POINTER ''IpV4Addr'', POINTER ''IpV4Addr'',
        c_void_p, CFUNC, CFUNC]\<rparr>"
    and "ip_input_fn n = \<lparr>func_name = ''ethernet_input'', restype = Some c_int8,
      argtypes = Some [POINTER ''PBuf'', POINTER ''_LwipNetIf'']\<rparr>"
  using assms
  by (auto simp: netif_of_def netif_init_def py_simps wrap_function_def split: option.splits sum.splits prod.splits)

text \<open>
  \<^verbatim>\<open>netif_add\<close> as documented: it stores the addresses (any address for \<open>NULL\<close>), the
  state and the input function in the structure.
\<close>

definition netif_add_law :: "'l lwip_lib \<Rightarrow> bool" where
  "netif_add_law lwip \<longleftrightarrow>
     (\<exists>f. lwip ''netif_add'' = Some f \<and>
        (\<forall>m i ip nm g st ini inp. i \<noteq> 0 \<longrightarrow>
           (\<exists>v m'. f [CPtr i, CPtr ip, CPtr nm, CPtr g, CPtr st, CFun ini, CFun inp] m = (v, m') \<and>
              ip_addr (netifs m' i) = (if ip = 0 then \<lparr>addr = 0\<rparr> else ip4s m ip) \<and>
              netmask (netifs m' i) = (if nm = 0 then \<lparr>addr = 0\<rparr> else ip4s m nm) \<and>
              gw (netifs m' i) = (if g = 0 then \<lparr>addr = 0\<rparr> else ip4s m g) \<and>
              state (netifs m' i) = st \<and> input (netifs m' i) = inp \<and> py_objects m' = py_objects m)))"

text \<open>An optional address argument.\<close>

fun opt_ip :: "nat \<Rightarrow> py_val" where
  "opt_ip a = (if a = 0 then PyNone else PyPtr ''IpV4Addr'' a)"

lemma opt_ip_param: "from_param (POINTER ''IpV4Addr'') (opt_ip a) = Inr (CPtr a)"
  by simp

lemma add_effect:
  assumes law: "netif_add_law lwip" and n: "netif_of lwip n"
  obtains m' where "add lwip (opt_ip ip) (opt_ip nm) (opt_ip g) (m, n)
      = (Inr (), (m', n\<lparr>netif_input := Thunk (Lib_function ''ethernet_input'')\<rparr>))"
    and "ip_addr (netifs m' (interface n)) = (if ip = 0 then \<lparr>addr = 0\<rparr> else ip4s m ip)"
    and "state (netifs m' (interface n)) = py_object_at n" and "py_objects m' (py_object_at n) = netif_id n"
    and "input (netifs m' (interface n)) = Thunk (Lib_function ''ethernet_input'')"
    and "flags (netifs m' (interface n)) = 8" and "hwaddr_len (netifs m' (interface n)) = 6"
    and "hwaddr (netifs m' (interface n)) = [10, 11, 12, 13, 14, 15]"
proof -
  note fns = netif_of_fns [OF n]
  let ?m = "m\<lparr>py_objects := (py_objects m)(py_object_at n := netif_id n)\<rparr>" and ?i = "interface n"
  let ?inp = "Thunk (Lib_function ''ethernet_input'')" and ?rep = "Thunk (Report_netif_init (netif_id n))"
  obtain f where f: "lwip ''netif_add'' = Some f" and add: "\<And>m i ip nm g st ini inp. i \<noteq> 0 \<Longrightarrow>
      \<exists>v m'. f [CPtr i, CPtr ip, CPtr nm, CPtr g, CPtr st, CFun ini, CFun inp] m = (v, m') \<and>
        ip_addr (netifs m' i) = (if ip = 0 then \<lparr>addr = 0\<rparr> else ip4s m ip) \<and>
        state (netifs m' i) = st \<and> input (netifs m' i) = inp \<and> py_objects m' = py_objects m"
    using law unfolding netif_add_law_def by metis
  have "?i \<noteq> 0" using n by (simp add: netif_of_def)
  from add [OF this] obtain v m1 where m1:
    "f [CPtr ?i, CPtr ip, CPtr nm, CPtr g, CPtr (py_object_at n), CFun ?rep, CFun ?inp] ?m = (v, m1)"
    "ip_addr (netifs m1 ?i) = (if ip = 0 then \<lparr>addr = 0\<rparr> else ip4s ?m ip)"
    "state (netifs m1 ?i) = py_object_at n" "input (netifs m1 ?i) = ?inp" "py_objects m1 = py_objects ?m"
    by blast
  have call: "call_function lwip (netif_add_fn n)
      [PyPtr ''_LwipNetIf'' ?i, opt_ip ip, opt_ip nm, opt_ip g, PyPtr ''py_object'' (py_object_at n),
       PyFunc ?rep, PyFunc ?inp] ?m = (Inr (to_result (Some (POINTER ''_LwipNetIf'')) v), m1)"
    by (simp add: call_function_def fns(1) f opt_ip_param m1(1) del: opt_ip.simps)
  define i2 where "i2 = (netifs m1 ?i)\<lparr>hwaddr := [10, 11, 12, 13, 14, 15], hwaddr_len := 6, flags := 8\<rparr>"
  have "add lwip (opt_ip ip) (opt_ip nm) (opt_ip g) (m, n)
      = (Inr (), (m1\<lparr>netifs := (netifs m1)(?i := i2)\<rparr>, n\<lparr>netif_input := ?inp\<rparr>))"
    using call by (simp add: add_def netif_access py_simps fns(2) i2_def del: opt_ip.simps)
  then show thesis
    by (rule that) (simp_all add: i2_def m1)
qed

section \<open>Addresses\<close>

text \<open>
  C33: the address an interface was added with is the address it shows: after \<open>add\<close> with the
  \<open>IpV4Addr\<close> of a dotted quad, \<open>get_address\<close> returns the same text.
\<close>

theorem netif_shows_its_address:
  assumes "netif_add_law lwip" and "netif_of lwip n"
    and "is_octet a" and "is_octet b" and "is_octet c" and "is_octet d"
    and "ip_v4_init (str_join ''.'' (map py_str [a, b, c, d])) = Inr (ip4s m ip)" and "ip \<noteq> 0"
  shows "fst (py_bind (add lwip (opt_ip ip) (opt_ip nm) (opt_ip g)) (\<lambda>_. get_address) (m, n)) =
    Inr (str_join ''.'' (map py_str [a, b, c, d]))"
proof -
  obtain m' n' where add: "add lwip (opt_ip ip) (opt_ip nm) (opt_ip g) (m, n) = (Inr (), (m', n'))"
    "ip_addr (netifs m' (interface n)) = ip4s m ip" "interface n' = interface n"
    by (rule add_effect [OF assms(1,2), of ip nm g m]) (use assms(8) in simp)
  have "int_ip_to_string (uint (addr (ip4s m ip))) = str_join ''.'' (map py_str [a, b, c, d])"
    using dotted_quad [OF assms(3-6)] unfolding assms(7) by auto
  with add show ?thesis
    by (simp add: py_bind_def get_address_def get_interface_def py_return_def del: opt_ip.simps)
qed

text \<open>A library whose \<^verbatim>\<open>netif_add\<close> does what it documents.\<close>

fun ptr_of :: "c_val \<Rightarrow> nat" where
  "ptr_of (CPtr p) = p"
| "ptr_of _ = 0"

fun fun_of :: "c_val \<Rightarrow> c_fun" where
  "fun_of (CFun f) = f"
| "fun_of _ = Null_fun"

definition sample_netif_add :: "c_val list \<Rightarrow> sample_mem \<Rightarrow> c_val \<times> sample_mem" where
  "sample_netif_add cs m =
     (let i = ptr_of (cs ! 0); ip = (\<lambda>k. if ptr_of (cs ! k) = 0 then \<lparr>addr = 0\<rparr> else ip4s m (ptr_of (cs ! k))) in
      (CPtr i, m\<lparr>netifs := (netifs m)(i := (netifs m i)\<lparr>
         ip_addr := ip 1, netmask := ip 2, gw := ip 3, state := ptr_of (cs ! 4), input := fun_of (cs ! 6)\<rparr>)\<rparr>))"

definition netif_lib :: "nat \<Rightarrow> nat list lwip_lib" where
  "netif_lib cap fname = (if fname = ''netif_add'' then Some sample_netif_add else sample_lib cap fname)"

definition sample_netif :: netif where
  "sample_netif = (case netif_init (netif_lib 1) ''p1.eth1'' 0 1 2 3 sample_mem of (Inr n, m) \<Rightarrow> n | _ \<Rightarrow> undefined)"

lemma sample_netif_init: "netif_init (netif_lib 1) ''p1.eth1'' 0 1 2 3 sample_mem =
    (Inr sample_netif, sample_mem\<lparr>netifs := (netifs sample_mem)(1 := zero_netif)\<rparr>)"
  by (simp add: sample_netif_def netif_init_def wrap_function_def netif_lib_def sample_lib_def py_simps)

lemma sample_netif_of: "netif_of (netif_lib 1) sample_netif"
proof -
  have "netif_name sample_netif = ''p1.eth1''" "netif_stack sample_netif = 0" "interface sample_netif = 1"
    "py_object_at sample_netif = 2" "netif_id sample_netif = 3"
    by code_simp+
  with sample_netif_init show ?thesis unfolding netif_of_def by force
qed

lemma sample_netif_add_law: "netif_add_law (netif_lib 1)"
  by (simp add: netif_add_law_def netif_lib_def sample_netif_add_def Let_def)

theorem netif_shows_its_address_witness:
  "fst (py_bind (add (netif_lib 1) (opt_ip 5) (opt_ip 0) (opt_ip 0)) (\<lambda>_. get_address)
     (sample_mem\<lparr>ip4s := (ip4s sample_mem)(5 := \<lparr>addr = 16909183\<rparr>)\<rparr>, sample_netif)) = Inr ''127.3.2.1''"
proof -
  let ?m = "sample_mem\<lparr>ip4s := (ip4s sample_mem)(5 := \<lparr>addr = 16909183\<rparr>)\<rparr>"
  have quad: "str_join ''.'' (map py_str [127, 3, 2, 1]) = ''127.3.2.1''" by code_simp
  have "ip_v4_init ''127.3.2.1'' = Inr \<lparr>addr = 16909183\<rparr>" by code_simp
  then have "ip_v4_init (str_join ''.'' (map py_str [127, 3, 2, 1])) = Inr (ip4s ?m 5)"
    unfolding quad by simp
  from netif_shows_its_address [OF sample_netif_add_law sample_netif_of _ _ _ _ this, of 0 0]
  show ?thesis unfolding quad by (simp add: is_octet_def)
qed

section \<open>Flags\<close>

lemma and_power_bit: "(n AND 2 ^ k \<noteq> 0) = bit n k" for n :: int
  by (metis and_exp_eq_0_iff_not_bit)

lemma flags_str_low: "flags_str fl = flags_str (fl mod 64)"
proof -
  have "(fl mod 64) AND 2 ^ k \<noteq> 0 \<longleftrightarrow> fl AND 2 ^ k \<noteq> 0" if "k < 6" for k :: nat
  proof -
    have "fl mod 64 = take_bit 6 fl" by (simp add: take_bit_eq_mod)
    then show ?thesis using that by (simp only: and_power_bit bit_take_bit_iff) simp
  qed
  from this [of 0] this [of 1] this [of 2] this [of 3] this [of 4] this [of 5] show ?thesis
    by (simp add: flags_str_def flag_defs)
qed

lemma flags_str_distinct: "distinct (map flags_str (map int [0..<64]))"
  by code_simp

text \<open>
  The text of an interface's flags names them exactly: two values give the same text if and
  only if they agree on the six flags that lwIP defines.
\<close>

lemma flags_text_exact: "flags_str a = flags_str b \<longleftrightarrow> a mod 64 = b mod 64"
proof
  assume "flags_str a = flags_str b"
  then have eq: "flags_str (a mod 64) = flags_str (b mod 64)"
    using flags_str_low [of a] flags_str_low [of b] by simp
  have range: "x mod 64 \<in> set (map int [0..<64])" for x :: int
  proof -
    have "x mod 64 = int (nat (x mod 64))" "nat (x mod 64) \<in> {0..<64}" by (simp_all add: nat_less_iff)
    then show ?thesis by (metis image_eqI set_map set_upt)
  qed
  from flags_str_distinct have "inj_on flags_str (set (map int [0..<64]))"
    by (simp only: distinct_map)
  with eq range show "a mod 64 = b mod 64" by (meson inj_onD)
next
  assume "a mod 64 = b mod 64"
  then show "flags_str a = flags_str b" using flags_str_low [of a] flags_str_low [of b] by simp
qed

section \<open>Frames\<close>

text \<open>
  The pbuf functions leave the interfaces alone, and \<^verbatim>\<open>ethernet_input\<close> returns an
  error code; what else it does to the memory is open.
\<close>

definition pbuf_keeps :: "('l cmem \<Rightarrow> 'x) \<Rightarrow> 'l lwip_lib \<Rightarrow> bool" where
  "pbuf_keeps part lwip \<longleftrightarrow>
     (\<forall>fname \<in> {''pbuf_alloc'', ''pbuf_take''}. \<forall>f. lwip fname = Some f \<longrightarrow> (\<forall>cs m. part (snd (f cs m)) = part m))"

definition pbuf_keeps_netifs :: "'l lwip_lib \<Rightarrow> bool" where
  "pbuf_keeps_netifs lwip \<longleftrightarrow> pbuf_keeps netifs lwip"

definition ethernet_input_law :: "'l lwip_lib \<Rightarrow> bool" where
  "ethernet_input_law lwip \<longleftrightarrow> (\<exists>f. lwip ''ethernet_input'' = Some f \<and> (\<forall>cs m. \<exists>k m'. f cs m = (CInt k, m')))"

lemma call_keeps:
  assumes "pbuf_keeps part lwip" and "func_name f \<in> {''pbuf_alloc'', ''pbuf_take''}"
    and "call_function lwip f args m = (r, m')"
  shows "part m' = part m"
proof -
  have "part (snd (c cs m)) = part m" if "lwip (func_name f) = Some c" for c cs
    using assms(1,2) that unfolding pbuf_keeps_def by blast
  with assms(3) show ?thesis
    by (auto simp: call_function_def split: option.splits prod.splits if_splits sum.splits) (metis snd_conv)+
qed

lemmas call_keeps_netifs = call_keeps [of netifs, folded pbuf_keeps_netifs_def]

lemma raw_keeps_netifs:
  assumes laws: "pbuf_laws lwip live" and keeps: "pbuf_keeps_netifs lwip" and a: "allocator_init lwip = Inr a"
    and call: "allocate_raw_pbuf_from_data lwip a (PyArray bs) (Some (int (length bs))) m = (r, m')"
  shows "netifs m' = netifs m"
proof -
  note a' = a [unfolded allocator_init_eq [OF laws], simplified, symmetric]
  have fns: "func_name (pbuf_alloc a) \<in> {''pbuf_alloc'', ''pbuf_take''}"
    "func_name (pbuf_take a) \<in> {''pbuf_alloc'', ''pbuf_take''}" by (simp_all add: a')
  have sz: "size_or_len (Some (int (length bs))) (PyArray bs) = py_return (int (length bs))"
    by (simp add: size_or_len_def py_simps)
  obtain q m1 where q: "call_function lwip (pbuf_alloc a) [PyInt 1, PyInt (int (length bs)), PyInt 386] m = (q, m1)"
    by force
  note keep1 = call_keeps_netifs [OF keeps fns(1) q]
  show ?thesis
  proof (cases "\<exists>tag p. q = Inr (PyPtr tag p) \<and> p \<noteq> 0")
    case True
    then obtain tag p where "q = Inr (PyPtr tag p)" "p \<noteq> 0" by blast
    then obtain v where v: "q = Inr v" "contents v m1 = (Inr v, m1)" by (simp add: py_simps)
    obtain t m2 where t: "call_function lwip (pbuf_take a) [v, PyArray bs, PyInt (int (length bs))] m1 = (t, m2)" by force
    have "m' = m2"
      using call q v t
      by (auto simp: allocate_raw_pbuf_from_data_def allocate_raw_pbuf_def sz py_simps split: sum.splits)
    then show ?thesis using call_keeps_netifs [OF keeps fns(2) t] keep1 by simp
  next
    case False
    have "m' = m1"
    proof (cases q)
      case (Inl e)
      then show ?thesis
        using call q by (auto simp: allocate_raw_pbuf_from_data_def allocate_raw_pbuf_def sz py_simps)
    next
      case (Inr v)
      with False call q show ?thesis
        by (cases v) (auto simp: allocate_raw_pbuf_from_data_def allocate_raw_pbuf_def sz py_simps split: if_splits)
    qed
    then show ?thesis using keep1 by simp
  qed
qed

text \<open>What \<open>input_data\<close> does with the memory and the library.\<close>

lemma input_data_effect:
  assumes "pbuf_laws lwip live" and "pbuf_keeps_netifs lwip" and "ethernet_input_law lwip" and "netif_of lwip n"
    and "input (netifs m (interface n)) = Thunk (Lib_function ''ethernet_input'')"
    and "input_data lwip other (PyByteArray bs) (m, n) = (r, (m', n'))"
  shows "n' = n \<and>
    (if r = Inl ValueError then live m' = live m
     else r = Inr () \<and> (\<exists>p m1 k. p \<notin> live m \<and> live m1 = insert p (live m) \<and>
       chain_bytes m1 p = Some (take (length bs mod 65536) bs) \<and>
       call_function lwip (ip_input_fn n) [PyPtr ''PBuf'' p, PyPtr ''_LwipNetIf'' (interface n)] m1 = (Inr (PyInt k), m')))"
proof -
  obtain a where a: "allocator_init lwip = Inr a" using allocator_init_eq [OF assms(1)] by blast
  obtain q m1 where q: "allocate_raw_pbuf_from_data lwip a (PyArray bs) (Some (int (length bs))) m = (q, m1)" by force
  have al: "allocated live bs m q m1"
    by (rule raw_allocated [OF assms(1) a _ _ q]) simp_all
  note keep = raw_keeps_netifs [OF assms(1,2) a q]
  note fns = netif_of_fns [OF assms(4)]
  show ?thesis
  proof (cases q)
    case (Inl e)
    then show ?thesis using assms(6) al a q by (auto simp: input_data_def py_simps allocated_def)
  next
    case (Inr v)
    then obtain p where p: "v = PyPtr ''PBuf'' p" "p \<notin> live m" "live m1 = insert p (live m)"
      "chain_bytes m1 p = Some (take (length bs mod 65536) bs)"
      using al by (auto simp: allocated_def)
    obtain f k m2 where f: "lwip ''ethernet_input'' = Some f" "f [CPtr p, CPtr (interface n)] m1 = (CInt k, m2)"
      using assms(3) unfolding ethernet_input_law_def by metis
    have in_fn: "call_function lwip (ip_input_fn n) [PyPtr ''PBuf'' p, PyPtr ''_LwipNetIf'' (interface n)] m1
        = (Inr (PyInt (wrap_signed 8 k)), m2)"
      by (simp add: call_function_def fns(2) f)
    have "(r, (m', n')) = (Inr (), (m2, n))"
      using assms(5,6) a q Inr p(1) in_fn keep
      by (simp add: input_data_def call_input_def netif_access py_simps fns(2))
    with p in_fn show ?thesis by auto
  qed
qed


definition added_mem :: sample_mem where
  "added_mem = sample_mem\<lparr>netifs := (netifs sample_mem)(1 := zero_netif\<lparr>input := Thunk (Lib_function ''ethernet_input'')\<rparr>)\<rparr>"

lemma sample_keeps_netifs: "pbuf_keeps_netifs (netif_lib 1)"
proof -
  have "netifs (snd (sample_alloc 1 cs m)) = netifs m" for cs m
    by (cases "(1 :: nat, cs, m)" rule: sample_alloc.cases) (simp_all add: Let_def)
  moreover have "netifs (snd (sample_take cs m)) = netifs m" for cs m
    by (cases "(cs, m)" rule: sample_take.cases) (simp_all add: Let_def)
  ultimately show ?thesis by (simp add: pbuf_keeps_netifs_def pbuf_keeps_def netif_lib_def sample_lib_def)
qed

lemma netif_lib_laws: "pbuf_laws (netif_lib 1) sample_live"
  using sample_laws [of 1] by (simp add: pbuf_laws_def netif_lib_def)

lemma sample_ethernet_input: "ethernet_input_law (netif_lib 1)"
  by (simp add: ethernet_input_law_def netif_lib_def sample_lib_def)


text \<open>What the link output wrapper does when a callable is set.\<close>

lemma link_output_eq:
  assumes "user_link_output n = Some f" and "p \<noteq> 0" and "i \<noteq> 0" and "state (netifs m i) \<noteq> 0"
    and "payload (pbufs m p) \<noteq> 0"
  shows "link_output_wrapper call i p ((m, n), ob) =
    py_bind (call f (py_objects m (state (netifs m i))) (bytes_at m (payload (pbufs m p)) (unat (len (pbufs m p)))))
      (\<lambda>_. py_return (PyInt 0)) ((m, n), ob)"
  using assms by (simp add: link_output_wrapper_def netif_access py_simps)

text \<open>
  An outgoing frame: with a callable set, it is called once, with the interface object that
  the C structure refers to and with a copy of the bytes of the pbuf's own segment, and
  C gets 0. A frame in a chain of several segments is cut to the first.
\<close>

lemma link_output_forwards:
  assumes "user_link_output n = Some f" and "p \<noteq> 0" and "i \<noteq> 0" and "state (netifs m i) \<noteq> 0"
    and "chain_bytes m p = Some bs"
  shows "\<exists>chunk rest. bs = chunk @ rest \<and> length chunk = unat (len (pbufs m p)) \<and>
    chain_bytes m (next_pbuf (pbufs m p)) = Some rest \<and> (next_pbuf (pbufs m p) = 0 \<longrightarrow> chunk = bs) \<and>
    link_output_wrapper call i p ((m, n), ob) =
      py_bind (call f (py_objects m (state (netifs m i))) chunk) (\<lambda>_. py_return (PyInt 0)) ((m, n), ob)"
proof -
  obtain rest where rest: "bs = bytes_at m (payload (pbufs m p)) (unat (len (pbufs m p))) @ rest"
    "chain_bytes m (next_pbuf (pbufs m p)) = Some rest"
    using chain_bytes_prefix [OF assms(5,2)] by blast
  note link_output_eq [OF assms(1-4) chain_bytes_payload [OF assms(5,2)], of call ob]
  moreover have "next_pbuf (pbufs m p) = 0 \<Longrightarrow> rest = []" using rest(2) by simp
  ultimately show ?thesis
    by (intro exI [of _ "bytes_at m (payload (pbufs m p)) (unat (len (pbufs m p)))"] exI [of _ rest] conjI impI)
      (simp_all only: rest length_bytes_at append_Nil2)
qed

text \<open>A memory in which a pbuf waits to be sent by an interface.\<close>

definition frame_mem :: sample_mem where
  "frame_mem = split_mem\<lparr>netifs := (netifs split_mem)(1 := zero_netif\<lparr>state := 2\<rparr>), py_objects := (\<lambda>_. 3)\<rparr>"

end
