(* ===== verification/PingClient.thy ===== *)
theory PingClient imports NetIfProperties begin

text \<open>
  \<^verbatim>\<open>lwip_py/stack/ping_client.py\<close> together with
  \<^verbatim>\<open>lwip_lib/src/ping_result.c\<close>, which keeps the one callback of the library.
  Several clients may share a library, so the state has all of them, by identity.
\<close>

section \<open>The C side\<close>

definition set_ping_callback :: "c_val list \<Rightarrow> 'l cmem \<Rightarrow> c_val \<times> 'l cmem" where
  "set_ping_callback cs m = (CVoid, m\<lparr>ping_cbk := fun_of (cs ! 0)\<rparr>)"

text \<open>\<^verbatim>\<open>ping_result\<close>: the callable to be called with the result, if one is set.\<close>

definition ping_result :: "'l cmem \<Rightarrow> py_callable option" where
  "ping_result m = (case ping_cbk m of Null_fun \<Rightarrow> None | Thunk f \<Rightarrow> Some f)"

section \<open>The class\<close>

record ping_client =
  ping_init_fn :: c_function
  ping_send_now_fn :: c_function
  set_ping_callback_fn :: c_function
  ping_callback :: "nat option"
  ping_ctypes_callback :: c_fun

record 'l ping_sys =
  pmem :: "'l cmem"
  clients :: "nat \<Rightarrow> ping_client"

definition ping_client_init :: "'l lwip_lib \<Rightarrow> ping_client res" where
  "ping_client_init lwip =
     res_bind (wrap_function lwip ''ping_init'' None (Some [POINTER ''IpAddr''])) (\<lambda>init_fn.
     res_bind (wrap_function lwip ''ping_send_now'' None None) (\<lambda>send_fn.
     res_bind (wrap_function lwip ''set_ping_callback'' None (Some [CFUNC])) (\<lambda>set_fn.
     Inr \<lparr>ping_init_fn = init_fn, ping_send_now_fn = send_fn, set_ping_callback_fn = set_fn,
          ping_callback = None, ping_ctypes_callback = Null_fun\<rparr>)))"

definition on_client :: "nat \<Rightarrow> (ping_client \<Rightarrow> ping_client) \<Rightarrow> ('l ping_sys, unit) py" where
  "on_client c f s = (Inr (), s\<lparr>clients := (clients s)(c := f (clients s c))\<rparr>)"

definition on_pmem :: "('l cmem, 'a) py \<Rightarrow> ('l ping_sys, 'a) py" where
  "on_pmem f s = (case f (pmem s) of (r, m) \<Rightarrow> (r, s\<lparr>pmem := m\<rparr>))"

text \<open>\<^verbatim>\<open>ping\<close>; \<open>target\<close> is the address of the \<^verbatim>\<open>IpAddr\<close> structure.\<close>

definition ping :: "'l lwip_lib \<Rightarrow> nat \<Rightarrow> nat \<Rightarrow> nat option \<Rightarrow> ('l ping_sys, unit) py" where
  "ping lwip c target callback =
     py_bind (on_client c (\<lambda>p. p\<lparr>ping_callback := callback\<rparr>)) (\<lambda>_.
     py_bind (on_client c (\<lambda>p. p\<lparr>ping_ctypes_callback := Thunk (Ping_callback_internal c)\<rparr>)) (\<lambda>_ s.
     py_bind (on_pmem (call_function lwip (set_ping_callback_fn (clients s c))
                         [PyFunc (ping_ctypes_callback (clients s c))])) (\<lambda>_.
     py_bind (on_pmem (call_function lwip (ping_init_fn (clients s c)) [PyPtr ''IpAddr'' target])) (\<lambda>_.
     py_bind (on_pmem (call_function lwip (ping_send_now_fn (clients s c)) [])) (\<lambda>_.
     py_return ()))) s))"

text \<open>
  \<^verbatim>\<open>_ping_callback_internal\<close>, up to the call of the user's callable, which is its last
  statement: the result is the callable and its argument.
\<close>

definition ping_callback_internal ::
  "'l lwip_lib \<Rightarrow> nat \<Rightarrow> byte \<Rightarrow> ('l ping_sys, (nat \<times> bool) option) py" where
  "ping_callback_internal lwip c result s =
     py_bind (on_pmem (call_function lwip (set_ping_callback_fn (clients s c)) [PyFunc Null_fun])) (\<lambda>_ s.
     (case ping_callback (clients s c) of
        None \<Rightarrow> (Inr None, s)
      | Some tmp_callback \<Rightarrow>
          py_bind (on_client c (\<lambda>p. p\<lparr>ping_callback := None\<rparr>)) (\<lambda>_.
          py_return (Some (tmp_callback, result \<noteq> 0))) s)) s"

section \<open>Runs\<close>

text \<open>
  What happens to the clients of one library: pings, and results that the library reports. A
  callable that pings again does so after the client's callback is over, so it is the next
  event. A run collects the calls of the users' callables.
\<close>

datatype ping_event = Ping nat nat nat | Result byte

fun ping_step :: "'l lwip_lib \<Rightarrow> ping_event \<Rightarrow> ('l ping_sys, (nat \<times> bool) option) py" where
  "ping_step lwip (Ping c target callback) = py_bind (ping lwip c target (Some callback)) (\<lambda>_. py_return None)"
| "ping_step lwip (Result r) = (\<lambda>s.
     case ping_result (pmem s) of
       Some (Ping_callback_internal c) \<Rightarrow> ping_callback_internal lwip c r s
     | _ \<Rightarrow> (Inr None, s))"

fun ping_run :: "'l lwip_lib \<Rightarrow> ping_event list \<Rightarrow> ('l ping_sys, (nat \<times> bool) list) py" where
  "ping_run lwip [] = py_return []"
| "ping_run lwip (e # es) =
     py_bind (ping_step lwip e) (\<lambda>r.
     py_bind (ping_run lwip es) (\<lambda>calls.
     py_return ((case r of None \<Rightarrow> [] | Some call \<Rightarrow> [call]) @ calls)))"

text \<open>
  The specification: one slot holds the callable of the last ping that has not been answered,
  whichever client it came from; a result empties it.
\<close>

fun slot_run :: "nat option \<Rightarrow> ping_event list \<Rightarrow> (nat \<times> bool) list" where
  "slot_run slot [] = []"
| "slot_run slot (Ping c target callback # es) = slot_run (Some callback) es"
| "slot_run slot (Result r # es) =
     (case slot of None \<Rightarrow> [] | Some f \<Rightarrow> [(f, r \<noteq> 0)]) @ slot_run None es"

text \<open>
  What the model assumes of the library: it contains \<^verbatim>\<open>ping_result.c\<close>, and the ping
  application's functions leave the callback alone.
\<close>

definition ping_law :: "'l lwip_lib \<Rightarrow> bool" where
  "ping_law lwip \<longleftrightarrow>
     lwip ''set_ping_callback'' = Some set_ping_callback \<and>
     (\<exists>f. lwip ''ping_init'' = Some f \<and> (\<forall>cs m. ping_cbk (snd (f cs m)) = ping_cbk m)) \<and>
     (\<exists>f. lwip ''ping_send_now'' = Some f \<and> (\<forall>cs m. ping_cbk (snd (f cs m)) = ping_cbk m))"

definition clients_of :: "'l lwip_lib \<Rightarrow> (nat \<Rightarrow> ping_client) \<Rightarrow> bool" where
  "clients_of lwip cl \<longleftrightarrow>
     (\<exists>p. ping_client_init lwip = Inr p \<and>
        (\<forall>c. ping_init_fn (cl c) = ping_init_fn p \<and> ping_send_now_fn (cl c) = ping_send_now_fn p \<and>
             set_ping_callback_fn (cl c) = set_ping_callback_fn p))"

text \<open>The abstraction: the slot is the callable of the client whose callback is installed.\<close>

definition slot_of :: "'l ping_sys \<Rightarrow> nat option" where
  "slot_of s = (case ping_cbk (pmem s) of Thunk (Ping_callback_internal c) \<Rightarrow> ping_callback (clients s c) | _ \<Rightarrow> None)"

lemma ping_fns:
  assumes "ping_law lwip"
  shows "ping_client_init lwip = Inr \<lparr>
    ping_init_fn = \<lparr>func_name = ''ping_init'', restype = None, argtypes = Some [POINTER ''IpAddr'']\<rparr>,
    ping_send_now_fn = \<lparr>func_name = ''ping_send_now'', restype = None, argtypes = None\<rparr>,
    set_ping_callback_fn = \<lparr>func_name = ''set_ping_callback'', restype = None, argtypes = Some [CFUNC]\<rparr>,
    ping_callback = None, ping_ctypes_callback = Null_fun\<rparr>"
  using assms by (auto simp: ping_client_init_def wrap_function_def ping_law_def)

lemma clients_fns:
  assumes "ping_law lwip" and "clients_of lwip cl"
  shows "ping_init_fn (cl c) = \<lparr>func_name = ''ping_init'', restype = None, argtypes = Some [POINTER ''IpAddr'']\<rparr>"
    and "ping_send_now_fn (cl c) = \<lparr>func_name = ''ping_send_now'', restype = None, argtypes = None\<rparr>"
    and "set_ping_callback_fn (cl c) = \<lparr>func_name = ''set_ping_callback'', restype = None, argtypes = Some [CFUNC]\<rparr>"
  using assms by (auto simp: clients_of_def ping_fns)

lemma clients_of_update:
  "clients_of lwip cl \<Longrightarrow> clients_of lwip (cl(c := (cl c)\<lparr>ping_callback := cb\<rparr>))"
  "clients_of lwip cl \<Longrightarrow> clients_of lwip (cl(c := (cl c)\<lparr>ping_callback := cb, ping_ctypes_callback := f\<rparr>))"
  by (auto simp: clients_of_def)

lemma call_keeps_cbk:
  assumes "lwip (func_name f) = Some g" and "\<forall>cs m. ping_cbk (snd (g cs m)) = ping_cbk m"
    and "argtypes f = None \<or> (\<exists>cs. argtypes f = Some ts \<and> length args = length ts \<and> seq_res (map2 from_param ts args) = Inr cs)"
  obtains v m' where "call_function lwip f args m = (Inr v, m')" and "ping_cbk m' = ping_cbk m"
proof -
  have keep: "ping_cbk m' = ping_cbk m" if "g cs m = (v, m')" for cs v m'
    using assms(2) that by (metis snd_conv)
  show thesis
  proof (cases "argtypes f")
    case None
    obtain v m' where "g [] m = (v, m')" by force
    with None keep show thesis
      by (intro that [of "to_result (restype f) v" m']) (simp_all add: call_function_def assms(1))
  next
    case (Some us)
    with assms(3) obtain cs where cs: "us = ts" "length args = length ts" "seq_res (map2 from_param ts args) = Inr cs"
      by auto
    obtain v m' where "g cs m = (v, m')" by force
    with Some cs keep show thesis
      by (intro that [of "to_result (restype f) v" m']) (simp_all add: call_function_def assms(1))
  qed
qed

lemma ping_effect:
  assumes law: "ping_law lwip" and cl: "clients_of lwip (clients s)"
  obtains s' where "ping lwip c target (Some cb) s = (Inr (), s')" and "slot_of s' = Some cb"
    and "clients_of lwip (clients s')"
proof -
  note fns = clients_fns [OF law cl, of c]
  let ?cl = "(clients s)(c := (clients s c)\<lparr>ping_callback := Some cb, ping_ctypes_callback := Thunk (Ping_callback_internal c)\<rparr>)"
  let ?m1 = "(pmem s)\<lparr>ping_cbk := Thunk (Ping_callback_internal c)\<rparr>"
  obtain f where f: "lwip ''ping_init'' = Some f" "\<forall>cs m. ping_cbk (snd (f cs m)) = ping_cbk m"
    using law by (auto simp: ping_law_def)
  obtain g where g: "lwip ''ping_send_now'' = Some g" "\<forall>cs m. ping_cbk (snd (g cs m)) = ping_cbk m"
    using law by (auto simp: ping_law_def)
  have lib: "lwip ''set_ping_callback'' = Some set_ping_callback" using law by (simp add: ping_law_def)
  have set1: "call_function lwip (set_ping_callback_fn (clients s c)) [PyFunc (Thunk (Ping_callback_internal c))] (pmem s)
      = (Inr PyNone, ?m1)"
    by (simp add: call_function_def fns(3) lib set_ping_callback_def)
  obtain v m2 where init: "call_function lwip (ping_init_fn (clients s c)) [PyPtr ''IpAddr'' target] ?m1 = (Inr v, m2)"
    "ping_cbk m2 = ping_cbk ?m1"
    by (rule call_keeps_cbk [of lwip "ping_init_fn (clients s c)" f "[POINTER ''IpAddr'']" "[PyPtr ''IpAddr'' target]" ?m1])
      (use f fns(1) in simp_all)
  obtain w m3 where send: "call_function lwip (ping_send_now_fn (clients s c)) [] m2 = (Inr w, m3)"
    "ping_cbk m3 = ping_cbk m2"
    by (rule call_keeps_cbk [of lwip "ping_send_now_fn (clients s c)" g "[]" "[]" m2])
      (use g fns(2) in simp_all)
  have "ping lwip c target (Some cb) s = (Inr (), s\<lparr>clients := ?cl, pmem := m3\<rparr>)"
    by (simp add: ping_def on_client_def on_pmem_def py_simps set1 init(1) send(1))
  then show thesis
    by (rule that) (simp_all add: slot_of_def init(2) send(2) clients_of_update [OF cl])
qed

lemma result_effect:
  assumes law: "ping_law lwip" and cl: "clients_of lwip (clients s)"
  obtains s' where "ping_step lwip (Result r) s = (Inr (map_option (\<lambda>f. (f, r \<noteq> 0)) (slot_of s)), s')"
    and "slot_of s' = None" and "clients_of lwip (clients s')"
proof (cases "ping_result (pmem s)")
  case None
  then show thesis
    using cl by (intro that [of s]) (auto simp: ping_result_def slot_of_def split: c_fun.splits)
next
  case (Some callable)
  then have cbk: "ping_cbk (pmem s) = Thunk callable" by (simp add: ping_result_def split: c_fun.splits)
  show thesis
  proof (cases "\<exists>c. callable = Ping_callback_internal c")
    case False
    with cl cbk Some show thesis
      by (intro that [of s]) (auto simp: slot_of_def split: py_callable.splits)
  next
    case True
    then obtain c where c: "callable = Ping_callback_internal c" by blast
    have lib: "lwip ''set_ping_callback'' = Some set_ping_callback" using law by (simp add: ping_law_def)
    let ?s = "s\<lparr>pmem := (pmem s)\<lparr>ping_cbk := Null_fun\<rparr>\<rparr>"
    have set0: "call_function lwip (set_ping_callback_fn (clients s c)) [PyFunc Null_fun] (pmem s)
        = (Inr PyNone, pmem ?s)"
      by (simp add: call_function_def clients_fns(3) [OF law cl] lib set_ping_callback_def)
    show thesis
    proof (cases "ping_callback (clients s c)")
      case None
      then show thesis
        by (intro that [of ?s])
          (simp_all add: Some c ping_callback_internal_def on_pmem_def py_simps set0 slot_of_def cbk cl)
    next
      case (Some f)
      show thesis
        by (rule that [of "?s\<lparr>clients := (clients s)(c := (clients s c)\<lparr>ping_callback := None\<rparr>)\<rparr>"])
          (simp_all add: \<open>ping_result (pmem s) = Some callable\<close> Some c ping_callback_internal_def on_pmem_def
            on_client_def py_simps set0 slot_of_def cbk clients_of_update [OF cl])
    qed
  qed
qed

lemma ping_run_refines:
  assumes "ping_law lwip" and "clients_of lwip (clients s)"
  shows "fst (ping_run lwip es s) = Inr (slot_run (slot_of s) es)"
  using assms(2)
proof (induction es arbitrary: s)
  case Nil
  then show ?case by (simp add: py_simps)
next
  case (Cons e es)
  show ?case
  proof (cases e)
    case (Ping c target cb)
    obtain s' where "ping lwip c target (Some cb) s = (Inr (), s')" "slot_of s' = Some cb" "clients_of lwip (clients s')"
      using ping_effect [OF assms(1) Cons.prems] by metis
    with Cons.IH [of s'] show ?thesis
      by (cases "ping_run lwip es s'") (auto simp: Ping py_simps)
  next
    case (Result r)
    obtain s' where "ping_step lwip (Result r) s = (Inr (map_option (\<lambda>f. (f, r \<noteq> 0)) (slot_of s)), s')"
      "slot_of s' = None" "clients_of lwip (clients s')"
      using result_effect [OF assms(1) Cons.prems] by metis
    with Cons.IH [of s'] show ?thesis
      by (cases "ping_run lwip es s'") (auto simp: Result py_simps simp del: ping_step.simps split: option.split)
  qed
qed

lemma slot_run_length:
  "length (slot_run slot es) \<le> length (filter (\<lambda>e. \<exists>c t f. e = Ping c t f) es) + (if slot = None then 0 else 1)"
  by (induction slot es rule: slot_run.induct) (auto split: option.splits)

lemma slot_run_callables:
  "(f, b) \<in> set (slot_run slot es) \<Longrightarrow> slot = Some f \<or> (\<exists>c t. Ping c t f \<in> set es)"
  by (induction slot es rule: slot_run.induct) (auto split: option.splits)

section \<open>Properties\<close>

text \<open>
  C19: the clients of one library behave like one slot: a result is given to the callable of the
  latest ping that has not been answered, once, whichever client it came from, and to no
  other. A ping therefore takes the answer from a ping of another client before it.
\<close>

theorem ping_one_slot:
  assumes "ping_law lwip" and "clients_of lwip (clients s)" and "ping_cbk (pmem s) = Null_fun"
  shows "fst (ping_run lwip es s) = Inr (slot_run None es)"
  using ping_run_refines [OF assms(1,2), of es] assms(3) by (simp add: slot_of_def)

definition ping_lib :: "nat list lwip_lib" where
  "ping_lib fname = (if fname = ''set_ping_callback'' then Some set_ping_callback else sample_lib 1 fname)"

definition sample_ping_sys :: "nat list ping_sys" where
  "sample_ping_sys = \<lparr>pmem = sample_mem, clients = (\<lambda>_. projr (ping_client_init ping_lib))\<rparr>"

text \<open>Two clients ping; one result comes, then a late one, then the first client pings again.\<close>

definition two_pings :: "ping_event list" where
  "two_pings = [Ping 1 5 11, Ping 2 5 22, Result 1, Result 1, Ping 1 5 33, Result 0]"

theorem ping_one_slot_witness:
  "fst (ping_run ping_lib two_pings sample_ping_sys) = Inr [(22, True), (33, False)]"
proof -
  have law: "ping_law ping_lib" by (simp add: ping_law_def ping_lib_def sample_lib_def)
  have cl: "clients_of ping_lib (clients sample_ping_sys)"
    by (simp add: clients_of_def sample_ping_sys_def ping_fns [OF law])
  have "slot_run None two_pings = [(22, True), (33, False)]" by (simp add: two_pings_def)
  with ping_one_slot [OF law cl, of two_pings] show ?thesis
    by (simp add: sample_ping_sys_def sample_mem_def)
qed



end
