(* ===== verification/Stack.thy ===== *)
theory Stack imports PingClient "HOL-Library.AList" begin

text \<open>
  \<^verbatim>\<open>lwip_py/stack/stack.py\<close>. A stack owns one instance of the library and the
  interfaces made from it, by name, in the order of Python's dictionaries (a name that is
  set again keeps its place). The attribute \<open>_lwip\<close> exists after \<open>init\<close> only. Objects are
  made in a heap of the process: \<open>netif_objs\<close>, with the addresses of their C structures
  taken from the same counter.
\<close>

section \<open>The class\<close>

definition sock_stream :: int where "sock_stream = 1"
definition sock_dgram :: int where "sock_dgram = 2"
definition sock_raw :: int where "sock_raw = 3"

record 'l stack =
  library_loader :: loader
  stack_interfaces :: "(string \<times> nat) list"
  stack_lwip :: "'l lwip_lib option"
  sys_check_timeouts :: "c_function option"
  stack_mem :: "'l cmem"
  netif_objs :: "nat \<Rightarrow> netif option"
  next_obj :: nat
  stack_id :: nat

type_synonym 'l loads = "(string \<Rightarrow> string option) \<times> (string \<Rightarrow> 'l lwip_lib res)"

definition stack_new :: "loader \<Rightarrow> 'l cmem \<Rightarrow> nat \<Rightarrow> 'l stack" where
  "stack_new ld m ident = \<lparr>library_loader = ld, stack_interfaces = [], stack_lwip = None, sys_check_timeouts = None,
     stack_mem = m, netif_objs = (\<lambda>_. None), next_obj = 1, stack_id = ident\<rparr>"

definition get_lwip :: "('l stack, 'l lwip_lib) py" where
  "get_lwip s = (case stack_lwip s of None \<Rightarrow> (Inl AttributeError, s) | Some l \<Rightarrow> (Inr l, s))"

definition on_stack_mem :: "('l cmem, 'a) py \<Rightarrow> ('l stack, 'a) py" where
  "on_stack_mem f s = (case f (stack_mem s) of (r, m) \<Rightarrow> (r, s\<lparr>stack_mem := m\<rparr>))"

definition stack_init :: "'l loads \<Rightarrow> ('l stack, unit) py" where
  "stack_init loads s =
     (case load_library (fst loads) (snd loads) (library_loader s) of
        (Inl e, ld) \<Rightarrow> (Inl e, s\<lparr>library_loader := ld\<rparr>)
      | (Inr lwip, ld) \<Rightarrow>
          py_bind (of_res (wrap_function lwip ''sys_check_timeouts'' None None)) (\<lambda>f s.
          py_bind (of_res (wrap_function lwip ''lwip_init'' (Some c_int) None)) (\<lambda>g.
          py_bind (on_stack_mem (call_function lwip g [])) (\<lambda>_. py_return ()))
          (s\<lparr>sys_check_timeouts := Some f\<rparr>))
          (s\<lparr>library_loader := ld, stack_lwip := Some lwip\<rparr>))"

definition make_interface :: "string \<Rightarrow> ('l stack, nat) py" where
  "make_interface nm =
     py_bind get_lwip (\<lambda>lwip s.
     let k = next_obj s in
     py_bind (on_stack_mem (netif_init lwip nm (stack_id s) k k k)) (\<lambda>net_if s.
       (Inr k, s\<lparr>netif_objs := (netif_objs s)(k := Some net_if), next_obj := Suc k,
                stack_interfaces := AList.update nm k (stack_interfaces s)\<rparr>)) s)"

definition make_allocator :: "('l stack, allocator) py" where
  "make_allocator = py_bind get_lwip (\<lambda>lwip. of_res (allocator_init lwip))"

definition make_socket :: "int \<Rightarrow> ('l stack, udp_socket) py" where
  "make_socket socket_type =
     (if socket_type = sock_dgram then
        py_bind get_lwip (\<lambda>lwip. py_bind make_allocator (\<lambda>a s.
          (udp_socket_init lwip a (next_obj s), s\<lparr>next_obj := Suc (next_obj s)\<rparr>)))
      else py_raise ValueError)"

definition make_ping_client :: "('l stack, ping_client) py" where
  "make_ping_client = py_bind get_lwip (\<lambda>lwip. of_res (ping_client_init lwip))"

definition get_interfaces :: "'l stack \<Rightarrow> (string \<times> nat) list" where
  "get_interfaces s = stack_interfaces s"

definition service_timeouts :: "('l stack, unit) py" where
  "service_timeouts s =
     (case sys_check_timeouts s of
        None \<Rightarrow> (Inl AttributeError, s)
      | Some f \<Rightarrow>
          (case stack_lwip s of
             None \<Rightarrow> (Inl AttributeError, s)
           | Some lwip \<Rightarrow> py_bind (on_stack_mem (call_function lwip f [])) (\<lambda>_. py_return ()) s))"

text \<open>Running an operation of an interface of the stack.\<close>

definition on_netif :: "nat \<Rightarrow> ('l netif_state, 'a) py \<Rightarrow> ('l stack, 'a) py" where
  "on_netif k f s =
     (case netif_objs s k of
        None \<Rightarrow> (Inl AttributeError, s)
      | Some n \<Rightarrow>
          (case f (stack_mem s, n) of
             (r, (m, n')) \<Rightarrow> (r, s\<lparr>stack_mem := m, netif_objs := (netif_objs s)(k := Some n')\<rparr>)))"

section \<open>Invariant\<close>

text \<open>
  The dictionary has each name once, and refers to made interfaces of that name whose
  structures do not share an address.
\<close>

definition stack_ok :: "'l stack \<Rightarrow> bool" where
  "stack_ok s \<longleftrightarrow>
     distinct (map fst (stack_interfaces s)) \<and> distinct (map snd (stack_interfaces s)) \<and>
     (\<forall>(nm, k) \<in> set (stack_interfaces s). 0 < k \<and> k < next_obj s \<and>
        (\<exists>n. netif_objs s k = Some n \<and> netif_name n = nm \<and> netif_id n = k \<and> interface n = k)) \<and>
     0 < next_obj s"

lemma set_update_subset: "set (AList.update k v al) \<subseteq> insert (k, v) (set al)"
  by (induction al) auto

lemma update_values_distinct:
  "distinct (map snd al) \<Longrightarrow> v \<notin> snd ` set al \<Longrightarrow> distinct (map snd (AList.update k v al))"
proof (induction al)
  case (Cons p al)
  obtain k' v' where p: "p = (k', v')" by force
  have "snd ` set (AList.update k v al) \<subseteq> insert v (snd ` set al)"
    using set_update_subset [of k v al] by force
  with Cons p show ?case by auto
qed simp

lemma netif_init_fields:
  assumes "netif_init lwip nm stk i po ident m = (Inr n, m')"
  shows "netif_name n = nm" "netif_id n = ident" "interface n = i" "py_object_at n = po" "netif_of lwip n \<longleftrightarrow> i \<noteq> 0 \<and> po \<noteq> 0"
    "user_link_output n = None" "netif_stack n = stk"
proof -
  show f: "netif_name n = nm" "netif_id n = ident" "interface n = i" "py_object_at n = po"
    "user_link_output n = None" "netif_stack n = stk"
    using assms by (auto simp: netif_init_def py_simps split: sum.splits prod.splits)
  show "netif_of lwip n \<longleftrightarrow> i \<noteq> 0 \<and> po \<noteq> 0"
    using assms f by (auto simp: netif_of_def)
qed

lemma make_interface_effect:
  assumes "make_interface nm s = (r, s')" and "stack_ok s"
  shows "stack_ok s' \<and>
    (case r of
       Inl e \<Rightarrow> stack_interfaces s' = stack_interfaces s
     | Inr k \<Rightarrow> k \<notin> snd ` set (stack_interfaces s) \<and> map_of (stack_interfaces s') = (map_of (stack_interfaces s))(nm \<mapsto> k))"
proof (cases "stack_lwip s")
  case None
  with assms show ?thesis by (auto simp: make_interface_def get_lwip_def py_bind_def)
next
  case (Some lwip)
  let ?k = "next_obj s"
  obtain q m where q: "netif_init lwip nm (stack_id s) ?k ?k ?k (stack_mem s) = (q, m)" by force
  show ?thesis
  proof (cases q)
    case (Inl e)
    with assms Some q show ?thesis
      by (auto simp: make_interface_def get_lwip_def py_bind_def on_stack_mem_def Let_def stack_ok_def)
  next
    case (Inr n)
    note n = netif_init_fields [OF q [unfolded Inr]]
    have new: "?k \<notin> snd ` set (stack_interfaces s)" using assms(2) by (auto simp: stack_ok_def)
    have s': "r = Inr ?k" "s' = s\<lparr>stack_mem := m, netif_objs := (netif_objs s)(?k := Some n), next_obj := Suc ?k,
        stack_interfaces := AList.update nm ?k (stack_interfaces s)\<rparr>"
      using assms(1) Some q Inr by (auto simp: make_interface_def get_lwip_def py_bind_def on_stack_mem_def Let_def)
    have "stack_ok s'"
      unfolding stack_ok_def
    proof (intro conjI)
      show "distinct (map fst (stack_interfaces s'))"
        using assms(2) by (simp add: s'(2) stack_ok_def distinct_update)
      show "distinct (map snd (stack_interfaces s'))"
        using assms(2) new by (simp add: s'(2) stack_ok_def update_values_distinct)
      show "0 < next_obj s'" by (simp add: s'(2))
      have "\<forall>(nm', k) \<in> set (stack_interfaces s). 0 < k \<and> k < Suc ?k \<and>
          (\<exists>n'. ((netif_objs s)(?k := Some n)) k = Some n' \<and> netif_name n' = nm' \<and> netif_id n' = k \<and> interface n' = k)"
        using assms(2) by (fastforce simp: stack_ok_def)
      moreover have "0 < ?k" using assms(2) by (simp add: stack_ok_def)
      ultimately show "\<forall>(nm', k) \<in> set (stack_interfaces s'). 0 < k \<and> k < next_obj s' \<and>
          (\<exists>n'. netif_objs s' k = Some n' \<and> netif_name n' = nm' \<and> netif_id n' = k \<and> interface n' = k)"
        using set_update_subset [of nm ?k "stack_interfaces s"] n by (auto simp: s'(2) split: if_splits)
    qed
    then show ?thesis using new by (simp add: s' update_conv')
  qed
qed

section \<open>Properties\<close>

text \<open>
  C35: \<open>make_interface\<close> on any stack: it keeps the dictionary consistent, and when it returns, the
  name refers to a new interface that no name referred to before, every other name to what
  it did; when it raises (before \<open>init\<close>, or with a library that lacks a function), the
  dictionary is unchanged.
\<close>

theorem make_interface_registers:
  assumes "stack_ok s" and "make_interface nm s = (r, s')"
  shows "stack_ok s' \<and>
    (case r of
       Inr k \<Rightarrow> k \<notin> snd ` set (get_interfaces s) \<and>
         map_of (get_interfaces s') = (map_of (get_interfaces s))(nm \<mapsto> k)
     | Inl e \<Rightarrow> get_interfaces s' = get_interfaces s)"
  using make_interface_effect [OF assms(2,1)] by (auto simp: get_interfaces_def split: sum.splits)

definition sample_stack :: "nat list stack" where
  "sample_stack = (stack_new (make_loader ''liblwip.so'') sample_mem 0)\<lparr>stack_lwip := Some (netif_lib 1)\<rparr>"

theorem make_interface_registers_witness:
  "\<exists>s'. py_bind (make_interface ''eth1'') (\<lambda>_. make_interface ''eth1'') sample_stack = (Inr 2, s') \<and>
     stack_ok s' \<and> map_of (get_interfaces s') ''eth1'' = Some 2"
proof -
  obtain r1 s1 where m1: "make_interface ''eth1'' sample_stack = (r1, s1)" by force
  obtain r2 s2 where m2: "make_interface ''eth1'' s1 = (r2, s2)" by force
  have ok: "stack_ok sample_stack" by (simp add: stack_ok_def sample_stack_def stack_new_def)
  have "fst (make_interface ''eth1'' sample_stack) = Inr 1"
    and "fst (make_interface ''eth1'' (snd (make_interface ''eth1'' sample_stack))) = Inr 2"
    by code_simp+
  then have r: "r1 = Inr 1" "r2 = Inr 2" by (simp_all add: m1 m2)
  have "stack_ok s1" using make_interface_registers [OF ok m1] by blast
  from make_interface_registers [OF this m2] show ?thesis
    by (simp add: py_bind_def m1 m2 r)
qed

text \<open>
  Before \<open>init\<close> nothing can be made: every factory method raises \<open>AttributeError\<close> and leaves the
  stack as it was, except that \<open>make_socket\<close> of a type other than a datagram socket raises
  \<open>ValueError\<close>, before and after \<open>init\<close> alike.
\<close>

lemma stack_before_init:
  assumes "s = stack_new ld m ident"
  shows "make_interface nm s = (Inl AttributeError, s) \<and> make_allocator s = (Inl AttributeError, s) \<and>
    make_ping_client s = (Inl AttributeError, s) \<and> service_timeouts s = (Inl AttributeError, s) \<and>
    make_socket sock_dgram s = (Inl AttributeError, s) \<and>
    (\<forall>t s1. t \<noteq> sock_dgram \<longrightarrow> make_socket t s1 = (Inl ValueError, s1))"
  by (simp add: assms stack_new_def make_interface_def make_allocator_def make_ping_client_def service_timeouts_def
      make_socket_def get_lwip_def py_simps)

lemma stack_before_init_example:
  "make_socket sock_stream (stack_new (make_loader ''liblwip.so'') sample_mem 0) =
     (Inl ValueError, stack_new (make_loader ''liblwip.so'') sample_mem 0)"
proof -
  let ?s = "stack_new (make_loader ''liblwip.so'') sample_mem 0"
  have "sock_stream \<noteq> sock_dgram" by (simp add: sock_stream_def sock_dgram_def)
  with stack_before_init [of ?s "make_loader ''liblwip.so''" sample_mem 0] show ?thesis by blast
qed

end
