(* ===== verification/EthernetBus.thy ===== *)
theory EthernetBus imports Executor begin

text \<open>
  \<^verbatim>\<open>lwip_py/emulation/ethernet_bus.py\<close>, and the observer of
  \<^verbatim>\<open>lwip_py/output/ethernet_recorder.py\<close>. Interfaces are named by identities
  (\<^verbatim>\<open>NetIf\<close> has no equality of its own). Filters, observers and the callbacks that
  take frames are code of others: functions on a state \<open>'s\<close> that may raise.
\<close>

section \<open>The class\<close>

type_synonym frame = "8 word list"

record 's bus =
  bus_interfaces :: "(nat \<times> (nat \<Rightarrow> frame \<Rightarrow> ('s, unit) py)) list"
  observers :: "(nat \<Rightarrow> frame \<Rightarrow> bool \<Rightarrow> ('s, unit) py) list"
  filters :: "(nat \<Rightarrow> frame \<Rightarrow> ('s, bool) py) list"

text \<open>
  The constructor gives every interface the bus's output callback; \<open>set_output\<close> is what
  \<^verbatim>\<open>set_output_callbacks\<close> of an interface does.
\<close>

definition bus_init ::
  "(nat \<Rightarrow> ('s, unit) py) \<Rightarrow> (nat \<times> (nat \<Rightarrow> frame \<Rightarrow> ('s, unit) py)) list \<Rightarrow> ('s, 's bus) py" where
  "bus_init set_output interfaces =
     py_bind (py_for interfaces (\<lambda>iface. set_output (fst iface))) (\<lambda>_.
     py_return \<lparr>bus_interfaces = interfaces, observers = [], filters = []\<rparr>)"

definition add_observer :: "(nat \<Rightarrow> frame \<Rightarrow> bool \<Rightarrow> ('s, unit) py) \<Rightarrow> 's bus \<Rightarrow> 's bus" where
  "add_observer ob b = b\<lparr>observers := observers b @ [ob]\<rparr>"

definition add_filter :: "(nat \<Rightarrow> frame \<Rightarrow> ('s, bool) py) \<Rightarrow> 's bus \<Rightarrow> 's bus" where
  "add_filter f b = b\<lparr>filters := filters b @ [f]\<rparr>"

definition add_interface ::
  "(nat \<Rightarrow> ('s, unit) py) \<Rightarrow> nat \<Rightarrow> (nat \<Rightarrow> frame \<Rightarrow> ('s, unit) py) \<Rightarrow> 's bus \<Rightarrow> 's \<Rightarrow> unit res \<times> ('s \<times> 's bus)" where
  "add_interface set_output i on_data b s =
     (let b' = b\<lparr>bus_interfaces := bus_interfaces b @ [(i, on_data)]\<rparr> in
      case set_output i s of (r, s') \<Rightarrow> (r, (s', b')))"

text \<open>\<^verbatim>\<open>all(map(...))\<close> stops at the first filter that refuses.\<close>

fun all_filters :: "(nat \<Rightarrow> frame \<Rightarrow> ('s, bool) py) list \<Rightarrow> nat \<Rightarrow> frame \<Rightarrow> ('s, bool) py" where
  "all_filters [] netif_from data = py_return True"
| "all_filters (f # fs) netif_from data =
     py_bind (f netif_from data) (\<lambda>ok. if ok then all_filters fs netif_from data else py_return False)"

definition broadcast_now :: "'s bus \<Rightarrow> nat \<Rightarrow> frame \<Rightarrow> ('s, unit) py" where
  "broadcast_now b netif_from data =
     py_bind (if filters b \<noteq> [] then all_filters (filters b) netif_from data else py_return True) (\<lambda>should_forward.
     py_bind (py_for (observers b) (\<lambda>observer. observer netif_from data should_forward)) (\<lambda>_.
     if should_forward then
       py_for (bus_interfaces b) (\<lambda>(i, callback). if i \<noteq> netif_from then callback i data else py_return ())
     else py_return ()))"

section \<open>The bus's executor\<close>

text \<open>
  \<^verbatim>\<open>broadcast\<close> schedules \<open>_broadcast\<close> with its two arguments. The interface objects
  have no order; byte strings are ordered.
\<close>

datatype bus_action = Broadcast

datatype bus_val = Netif_obj nat | Frame frame

fun byte_list_less :: "frame \<Rightarrow> frame \<Rightarrow> bool" where
  "byte_list_less [] ys = (ys \<noteq> [])"
| "byte_list_less (x # xs) [] = False"
| "byte_list_less (x # xs) (y # ys) = (x < y \<or> x = y \<and> byte_list_less xs ys)"

fun bus_val_lt :: "bus_val \<Rightarrow> bus_val \<Rightarrow> bool res" where
  "bus_val_lt (Frame a) (Frame b) = Inr (byte_list_less a b)"
| "bus_val_lt _ _ = Inl TypeError"

definition broadcast :: "rat \<Rightarrow> nat \<Rightarrow> frame \<Rightarrow> ((bus_action, bus_val, 'r) executor, unit) py" where
  "broadcast time netif_from data_to_broadcast =
     py_bind (schedule_delayed bus_val_lt time 0 0 Broadcast [Netif_obj netif_from, Frame data_to_broadcast] [])
       (\<lambda>_. py_return ())"

text \<open>What the bus's worker does with a task.\<close>

definition run_bus_task :: "'s bus \<Rightarrow> (bus_action, bus_val) task \<Rightarrow> ('s, unit) py" where
  "run_bus_task b t =
     (case args t of
        [Netif_obj i, Frame d] \<Rightarrow> broadcast_now b i d
      | _ \<Rightarrow> py_raise TypeError)"

section \<open>The recorder\<close>

text \<open>
  \<^verbatim>\<open>recorded_frames\<close> is an attribute of the class: all recorders append to the same
  list, which is the state.
\<close>

definition recorder_call :: "nat \<Rightarrow> nat \<Rightarrow> frame \<Rightarrow> bool \<Rightarrow> (frame list, unit) py" where
  "recorder_call self net_if frame_to_record was_forwarded recorded_frames =
     (Inr (), recorded_frames @ [frame_to_record])"

section \<open>What a broadcast does\<close>

text \<open>A filter that only looks at the frame and its sender.\<close>

definition pure_filter :: "(nat \<Rightarrow> frame \<Rightarrow> bool) \<Rightarrow> nat \<Rightarrow> frame \<Rightarrow> ('s, bool) py" where
  "pure_filter p i d = py_return (p i d)"

lemma all_filters_pure: "all_filters (map pure_filter ps) i d = py_return (\<forall>p \<in> set ps. p i d)"
  by (induction ps) (auto simp: pure_filter_def py_simps fun_eq_iff)

text \<open>A broadcast that is forwarded runs exactly the other interfaces' callbacks, in their order.\<close>

lemma py_for_filter:
  "py_for xs (\<lambda>(i, cb). if i \<noteq> j then cb i d else py_return ()) =
   py_for (filter (\<lambda>(i, cb). i \<noteq> j) xs) (\<lambda>(i, cb). cb i d)"
  by (induction xs) (auto simp: py_simps fun_eq_iff split: prod.splits sum.splits)

text \<open>Interfaces that share one callback, and an observer that takes part in no delivery.\<close>

definition connected ::
  "(nat \<Rightarrow> frame \<Rightarrow> ('s, unit) py) \<Rightarrow> nat list \<Rightarrow> (nat \<times> (nat \<Rightarrow> frame \<Rightarrow> ('s, unit) py)) list" where
  "connected deliver is = map (\<lambda>i. (i, deliver)) is"

definition quiet ::
  "('s \<Rightarrow> nat \<Rightarrow> frame multiset) \<Rightarrow> ('s \<Rightarrow> nat \<Rightarrow> bool) \<Rightarrow> ('s \<Rightarrow> bool) \<Rightarrow>
   (nat \<Rightarrow> frame \<Rightarrow> bool \<Rightarrow> ('s, unit) py) \<Rightarrow> bool" where
  "quiet inbox up ok ob \<longleftrightarrow>
     (\<forall>i d b s. \<exists>s'. ob i d b s = (Inr (), s') \<and> inbox s' = inbox s \<and> up s' = up s \<and> (ok s \<longrightarrow> ok s'))"

text \<open>
  The interface between the bus and those who take its frames: \<open>deliver\<close> is the callback of an
  interface, \<open>inbox\<close> the frames handed over so far, \<open>up\<close> tells who takes frames now. A
  delivery to an interface that is up adds the frame to its inbox; one to an interface that
  is not up raises and changes no inbox.
\<close>

locale frame_receivers =
  fixes deliver :: "nat \<Rightarrow> frame \<Rightarrow> ('s, unit) py"
    and inbox :: "'s \<Rightarrow> nat \<Rightarrow> frame multiset"
    and up :: "'s \<Rightarrow> nat \<Rightarrow> bool"
    and ok :: "'s \<Rightarrow> bool"
  assumes deliver_up: "ok s \<Longrightarrow> up s i \<Longrightarrow>
      \<exists>s'. deliver i d s = (Inr (), s') \<and> inbox s' = (inbox s)(i := add_mset d (inbox s i)) \<and> up s' = up s \<and> ok s'"
    and deliver_down: "ok s \<Longrightarrow> \<not> up s i \<Longrightarrow>
      \<exists>e s'. deliver i d s = (Inl e, s') \<and> inbox s' = inbox s \<and> up s' = up s"
begin

lemma deliver_all:
  assumes "ok s" and "\<forall>i \<in> set is. up s i"
  shows "\<exists>s'. py_for (connected deliver is) (\<lambda>(i, cb). cb i d) s = (Inr (), s') \<and> ok s' \<and> up s' = up s \<and>
    (\<forall>i. inbox s' i = inbox s i + replicate_mset (count_list is i) d)"
  using assms
proof (induction "is" arbitrary: s)
  case Nil
  then show ?case by (simp add: connected_def py_simps)
next
  case (Cons i "is")
  then obtain s1 where s1: "deliver i d s = (Inr (), s1)" "inbox s1 = (inbox s)(i := add_mset d (inbox s i))"
    "up s1 = up s" "ok s1" using deliver_up by (metis list.set_intros(1))
  from Cons.IH [OF s1(4)] Cons.prems(2) s1(3) obtain s2 where s2:
    "py_for (connected deliver is) (\<lambda>(i, cb). cb i d) s1 = (Inr (), s2)" "ok s2" "up s2 = up s1"
    "\<forall>k. inbox s2 k = inbox s1 k + replicate_mset (count_list is k) d" by auto
  have "inbox s2 k = inbox s k + replicate_mset (count_list (i # is) k) d" for k
    using s2(4) by (simp add: s1(2))
  with s1(1,3) s2(1-3) show ?case by (auto simp: connected_def py_simps)
qed

text \<open>The first receiver that is down ends the loop: those before it have the frame, it and those after it do not.\<close>

lemma deliver_until_down:
  assumes "ok s" and "\<forall>i \<in> set is. up s i" and "\<not> up s j"
  shows "\<exists>e s'. py_for (connected deliver (is @ j # js)) (\<lambda>(i, cb). cb i d) s = (Inl e, s') \<and> up s' = up s \<and>
    (\<forall>i. inbox s' i = inbox s i + replicate_mset (count_list is i) d)"
proof -
  obtain s1 where s1: "py_for (connected deliver is) (\<lambda>(i, cb). cb i d) s = (Inr (), s1)" "ok s1" "up s1 = up s"
    "\<forall>i. inbox s1 i = inbox s i + replicate_mset (count_list is i) d"
    using deliver_all [OF assms(1,2)] by blast
  obtain e s2 where s2: "deliver j d s1 = (Inl e, s2)" "inbox s2 = inbox s1" "up s2 = up s1"
    using deliver_down [OF s1(2)] assms(3) s1(3) by metis
  then have "py_for (connected deliver (is @ j # js)) (\<lambda>(i, cb). cb i d) s = (Inl e, s2)"
    using s1(1) by (simp add: connected_def py_for_append py_simps)
  with s1(3,4) s2(2,3) show ?thesis by simp
qed

lemma observers_quiet:
  assumes "\<forall>ob \<in> set obs. quiet inbox up ok ob" and "ok s"
  shows "\<exists>s'. py_for obs (\<lambda>ob. ob i d b) s = (Inr (), s') \<and> inbox s' = inbox s \<and> up s' = up s \<and> ok s'"
  using assms
proof (induction obs arbitrary: s)
  case Nil
  then show ?case by (simp add: py_simps)
next
  case (Cons ob obs)
  then obtain s1 where s1: "ob i d b s = (Inr (), s1)" "inbox s1 = inbox s" "up s1 = up s" "ok s1"
    unfolding quiet_def by (metis list.set_intros(1))
  from Cons.IH [OF _ s1(4)] Cons.prems(1) s1 show ?case by (auto simp: py_simps)
qed

lemma filter_connected: "filter (\<lambda>(i, cb). i \<noteq> j) (connected deliver is) = connected deliver (filter (\<lambda>i. i \<noteq> j) is)"
  by (simp add: connected_def filter_map comp_def)

lemma broadcast_steps:
  assumes b: "bus_interfaces b = connected deliver is" "filters b = map pure_filter ps" "\<forall>ob \<in> set (observers b). quiet inbox up ok ob"
    and s: "ok s"
  obtains s1 where "inbox s1 = inbox s" and "up s1 = up s" and "ok s1"
    and "broadcast_now b j d s =
      (if \<forall>p \<in> set ps. p j d then py_for (connected deliver (filter (\<lambda>i. i \<noteq> j) is)) (\<lambda>(i, cb). cb i d) s1 else (Inr (), s1))"
proof -
  let ?fwd = "\<forall>p \<in> set ps. p j d"
  define fwd where "fwd \<longleftrightarrow> ?fwd"
  obtain s1 where s1: "py_for (observers b) (\<lambda>ob. ob j d ?fwd) s = (Inr (), s1)" "inbox s1 = inbox s"
    "up s1 = up s" "ok s1"
    using observers_quiet [OF b(3) s] by metis
  have fil: "(if filters b \<noteq> [] then all_filters (filters b) j d else py_return True) = py_return ?fwd"
    by (cases ps) (simp_all add: b(2) all_filters_pure flip: list.map)
  have "broadcast_now b j d s =
      (if ?fwd then py_for (connected deliver (filter (\<lambda>i. i \<noteq> j) is)) (\<lambda>(i, cb). cb i d) s1 else (Inr (), s1))"
    unfolding broadcast_now_def fil py_for_filter b(1) filter_connected
    using s1(1) unfolding fwd_def [symmetric] by (cases fwd) (simp_all add: py_bind_def py_return_def)
  with s1 show thesis using that by blast
qed

lemma count_filter_ne: "count_list (filter (\<lambda>i. i \<noteq> j) is) k = (if k = j then 0 else count_list is k)"
  by (induction "is") auto

lemma broadcast_delivers:
  assumes "bus_interfaces b = connected deliver is" and "filters b = map pure_filter ps"
    and "\<forall>ob \<in> set (observers b). quiet inbox up ok ob" and "ok s" and "\<forall>i \<in> set is. i \<noteq> j \<longrightarrow> up s i"
  shows "\<exists>s'. broadcast_now b j d s = (Inr (), s') \<and> ok s' \<and> up s' = up s \<and>
    (\<forall>i. inbox s' i = inbox s i +
       replicate_mset (if (\<forall>p \<in> set ps. p j d) \<and> i \<noteq> j then count_list is i else 0) d)"
proof -
  obtain s1 where s1: "inbox s1 = inbox s" "up s1 = up s" "ok s1"
    "broadcast_now b j d s =
      (if \<forall>p \<in> set ps. p j d then py_for (connected deliver (filter (\<lambda>i. i \<noteq> j) is)) (\<lambda>(i, cb). cb i d) s1 else (Inr (), s1))"
    using broadcast_steps [OF assms(1-4)] by metis
  have "\<forall>i \<in> set (filter (\<lambda>i. i \<noteq> j) is). up s1 i" using assms(5) s1(2) by simp
  from deliver_all [OF s1(3) this, of d] obtain s2 where
    "py_for (connected deliver (filter (\<lambda>i. i \<noteq> j) is)) (\<lambda>(i, cb). cb i d) s1 = (Inr (), s2)" "ok s2" "up s2 = up s1"
    "\<forall>i. inbox s2 i = inbox s1 i + replicate_mset (count_list (filter (\<lambda>i. i \<noteq> j) is) i) d" by blast
  with s1 show ?thesis by (cases "\<forall>p \<in> set ps. p j d") (auto simp: count_filter_ne)
qed

lemma broadcast_stops_at_down:
  assumes "bus_interfaces b = connected deliver (is @ k # ks)" and "filters b = map pure_filter ps"
    and "\<forall>ob \<in> set (observers b). quiet inbox up ok ob" and "ok s" and "\<forall>i \<in> set is. i \<noteq> j \<longrightarrow> up s i"
    and "\<not> up s k" and "k \<noteq> j" and "\<forall>p \<in> set ps. p j d"
  shows "\<exists>e s'. broadcast_now b j d s = (Inl e, s') \<and>
    (\<forall>i. inbox s' i = inbox s i + replicate_mset (if i \<noteq> j then count_list is i else 0) d)"
proof -
  obtain s1 where s1: "inbox s1 = inbox s" "up s1 = up s" "ok s1"
    "broadcast_now b j d s = py_for (connected deliver (filter (\<lambda>i. i \<noteq> j) (is @ k # ks))) (\<lambda>(i, cb). cb i d) s1"
    using broadcast_steps [OF assms(1-4), of j d] assms(8) by metis
  have up: "\<forall>i \<in> set (filter (\<lambda>i. i \<noteq> j) is). up s1 i" and k: "\<not> up s1 k" using assms(5,6) s1(2) by simp_all
  have split: "filter (\<lambda>i. i \<noteq> j) (is @ k # ks) = filter (\<lambda>i. i \<noteq> j) is @ k # filter (\<lambda>i. i \<noteq> j) ks"
    using assms(7) by simp
  from deliver_until_down [OF s1(3) up k, of "filter (\<lambda>i. i \<noteq> j) ks" d] obtain e s2 where
    "broadcast_now b j d s = (Inl e, s2)"
    "\<forall>i. inbox s2 i = inbox s1 i + replicate_mset (count_list (filter (\<lambda>i. i \<noteq> j) is) i) d"
    unfolding s1(4) split by blast
  then show ?thesis using s1(1) by (auto simp: count_filter_ne)
qed

end

end
