(* ===== verification/Host.thy ===== *)
theory Host imports Stack EthernetBus SchedulerProperties begin

text \<open>
  \<^verbatim>\<open>lwip_py/emulation/host.py\<close>. A host is a stack and an executor with its thread.
  The client side of the host, which schedules work, is modelled on the executor's system of
  the theory ExecutorSteps; the work itself runs on the stack.
\<close>

section \<open>Scheduling from a client\<close>

text \<open>\<^verbatim>\<open>schedule_delayed\<close> and \<^verbatim>\<open>notify\<close>, as the step \<open>Schedule\<close> does them.\<close>

definition sys_schedule ::
  "('v \<Rightarrow> 'v \<Rightarrow> bool res) \<Rightarrow> rat \<Rightarrow> int \<Rightarrow> 'a \<Rightarrow> 'v list \<Rightarrow> (('a, 'v, 'r) sys, nat) py" where
  "sys_schedule olt delay prio act arguments s =
     (case schedule_delayed olt (now s) delay prio act arguments [] (ex s) of
        (r, x) \<Rightarrow>
          (r, s\<lparr>ex := x, worker := (case r of Inl e \<Rightarrow> worker s | Inr f \<Rightarrow> notify (worker s))\<rparr>))"

lemma sys_schedule_step: "sched_step olt s Schedule (snd (sys_schedule olt delay prio act arguments s))"
  unfolding sys_schedule_def
  by (cases "schedule_delayed olt (now s) delay prio act arguments [] (ex s)")
    (auto intro: sched_step.schedule)

text \<open>\<^verbatim>\<open>Thread.start\<close>: a thread can be started once.\<close>

definition thread_start :: "(('a, 'v, 'r) sys, unit) py" where
  "thread_start s = (case worker s of NotStarted \<Rightarrow> (Inr (), s\<lparr>worker := Starting\<rparr>) | _ \<Rightarrow> (Inl RuntimeError, s))"

text \<open>\<^verbatim>\<open>stop(sync=True)\<close> with its \<^verbatim>\<open>notify\<close>; \<open>join\<close> waits for \<open>joined\<close>.\<close>

definition sys_stop :: "bool \<Rightarrow> (('a, 'v, 'r) sys, unit) py" where
  "sys_stop sync s = (case stop sync (ex s) of (r, x) \<Rightarrow> (r, s\<lparr>ex := x, worker := notify (worker s)\<rparr>))"

definition joined :: "('a, 'v, 'r) sys \<Rightarrow> bool" where
  "joined s \<longleftrightarrow> (case worker s of Finished \<Rightarrow> True | Crashed e \<Rightarrow> True | _ \<Rightarrow> False)"

section \<open>The class\<close>

definition IMMEDIATE :: rat where "IMMEDIATE = 0"
definition TOP_PRIO :: int where "TOP_PRIO = 0"

text \<open>The actions a host schedules: a method of the host or of one of its interfaces, or the user's.\<close>

datatype host_action = Set_up_interfaces | Input_data nat | User_action nat

datatype host_val = Frame_val frame | Host_val nat

fun host_val_lt :: "host_val \<Rightarrow> host_val \<Rightarrow> bool res" where
  "host_val_lt (Frame_val a) (Frame_val b) = Inr (byte_list_less a b)"
| "host_val_lt _ _ = Inl TypeError"

type_synonym 'r host_sys = "(host_action, host_val, 'r) sys"

definition host_init :: "'l loads \<Rightarrow> rat \<Rightarrow> ('l stack, 'r host_sys) py" where
  "host_init loads t0 = py_bind (stack_init loads) (\<lambda>_. py_return (init_sys t0))"

text \<open>An address object is made for each text that is given and not empty.\<close>

definition new_ip4 :: "ip_v4_addr \<Rightarrow> ('l stack, py_val) py" where
  "new_ip4 ip s =
     (let a = next_obj s; m = stack_mem s in
      (Inr (PyPtr ''IpV4Addr'' a), s\<lparr>stack_mem := m\<lparr>ip4s := (ip4s m)(a := ip)\<rparr>, next_obj := Suc a\<rparr>))"

definition optional_ip :: "string option \<Rightarrow> ('l stack, py_val) py" where
  "optional_ip addr_str =
     (case addr_str of
        None \<Rightarrow> py_return PyNone
      | Some s \<Rightarrow> if s = '''' then py_return PyNone else py_bind (of_res (ip_v4_init s)) new_ip4)"

definition add_network_interface ::
  "string \<Rightarrow> string \<Rightarrow> string option \<Rightarrow> string option \<Rightarrow> ('l stack, nat) py" where
  "add_network_interface nm address network_mask gateway =
     py_bind (py_bind (of_res (ip_v4_init address)) new_ip4) (\<lambda>interface_ip.
     py_bind (optional_ip network_mask) (\<lambda>network_mask.
     py_bind (optional_ip gateway) (\<lambda>gateway.
     py_bind (make_interface nm) (\<lambda>k.
     py_bind get_lwip (\<lambda>lwip.
     py_bind (on_netif k (set_name [73, 110])) (\<lambda>_.
     py_bind (on_netif k (add lwip interface_ip network_mask gateway)) (\<lambda>_.
     py_bind (on_netif k set_etharp_flag) (\<lambda>_.
     py_return k))))))))"

text \<open>
  The calls of a client that may wait for the host's thread. The client's state \<open>'s\<close> holds the
  host's executor, which \<open>on_executor\<close> runs an operation on; \<open>result f\<close> is what waiting for the
  future \<open>f\<close> does to that state (the threads run meanwhile) and raises what its task raised;
  \<open>join\<close> waits for the end of the thread.
\<close>

definition set_up_interfaces ::
  "(('r host_sys, nat) py \<Rightarrow> ('s, nat) py) \<Rightarrow> (nat \<Rightarrow> ('s, unit) py) \<Rightarrow> bool \<Rightarrow> ('s, unit) py" where
  "set_up_interfaces on_executor result sync =
     py_bind (on_executor (sys_schedule host_val_lt IMMEDIATE TOP_PRIO Set_up_interfaces [])) (\<lambda>task.
     if sync then result task else py_return ())"

definition host_start :: "('r host_sys, unit) py" where
  "host_start = thread_start"

definition host_stop :: "(('r host_sys, unit) py \<Rightarrow> ('s, unit) py) \<Rightarrow> ('s, unit) py \<Rightarrow> ('s, unit) py" where
  "host_stop on_executor join = py_bind (on_executor (sys_stop True)) (\<lambda>_. join)"

definition get_interface_by_name :: "string \<Rightarrow> 'l stack \<Rightarrow> nat res" where
  "get_interface_by_name nm s =
     (case map_of (get_interfaces s) nm of None \<Rightarrow> Inl KeyError | Some k \<Rightarrow> Inr k)"

definition on_incoming_data :: "nat \<Rightarrow> frame \<Rightarrow> ('r host_sys, unit) py" where
  "on_incoming_data i incoming_data =
     py_bind (sys_schedule host_val_lt IMMEDIATE TOP_PRIO (Input_data i) [Frame_val incoming_data])
       (\<lambda>_. py_return ())"

definition execute :: "nat \<Rightarrow> nat \<Rightarrow> rat \<Rightarrow> ('r host_sys, nat) py" where
  "execute self act delay = sys_schedule host_val_lt delay TOP_PRIO (User_action act) [Host_val self]"

definition set_up_interfaces_now :: "('l stack, unit) py" where
  "set_up_interfaces_now =
     py_bind get_lwip (\<lambda>lwip s.
     py_for (map snd (get_interfaces s)) (\<lambda>k.
       py_bind (on_netif k (set_link_up lwip)) (\<lambda>_. on_netif k (set_up lwip))) s)"

text \<open>
  What the host's thread does with a task; \<open>other\<close> and \<open>user\<close> are the code of others, and the
  user's actions may act on objects of their own (\<open>'o\<close>) beside the stack.
\<close>

definition run_host_task ::
  "(c_fun \<Rightarrow> py_val list \<Rightarrow> ('l cmem, py_val) py) \<Rightarrow> (nat \<Rightarrow> ('l stack \<times> 'o, unit) py) \<Rightarrow>
   (host_action, host_val) task \<Rightarrow> ('l stack \<times> 'o, unit) py" where
  "run_host_task other user t =
     (case action t of
        Set_up_interfaces \<Rightarrow> on_fst set_up_interfaces_now
      | Input_data k \<Rightarrow>
          (case args t of
             [Frame_val d] \<Rightarrow>
               on_fst (py_bind get_lwip (\<lambda>lwip. on_netif k (input_data lwip other (PyByteArray d))))
           | _ \<Rightarrow> py_raise TypeError)
      | User_action a \<Rightarrow> user a)"

section \<open>What the operations do\<close>

text \<open>A host's executor that can take a task: its lock is free and its queue in order.\<close>

definition sys_fine :: "('a, 'v, 'r) sys \<Rightarrow> bool" where
  "sys_fine s \<longleftrightarrow> \<not> locked (ex s) \<and> queue_ok (tasks (ex s))"

lemma reachable_fine: "reachable olt s \<Longrightarrow> \<not> crashed (worker s) \<Longrightarrow> sys_fine s"
  using reachable_inv [of olt s] by (simp add: sys_fine_def sys_inv_unlocked sys_inv_queue_ok)

definition queued_tasks :: "('a, 'v, 'r) sys \<Rightarrow> ('a, 'v) task multiset" where
  "queued_tasks s = mset (get_tasks (tasks (ex s)))"

definition running :: "('a, 'v, 'r) sys \<Rightarrow> bool" where
  "running s \<longleftrightarrow> status (ex s) = Running"

lemma sys_schedule_running:
  assumes "sys_fine s" and "running s"
    and "\<forall>u \<in># queued_tasks s. task_key u \<noteq> Task_Key (now s + delay) prio"
  obtains s' where "sys_schedule olt delay prio act vs s = (Inr (next_future (ex s)), s')"
    and "queued_tasks s' = add_mset (new_task (now s) delay prio act vs [] (next_future (ex s))) (queued_tasks s)"
    and "running s'" and "sys_fine s'" and "now s' = now s"
proof -
  let ?t = "new_task (now s) delay prio act vs [] (next_future (ex s))"
  obtain err q where q: "schedule_task olt ?t (tasks (ex s)) = (err, q)" by force
  have ok: "queue_ok (tasks (ex s))" and l: "\<not> locked (ex s)" and st: "status (ex s) = Running"
    using assms(1,2) by (simp_all add: sys_fine_def running_def)
  have "task_key ?t = Task_Key (now s + delay) prio" by (simp add: task_key_def new_task_def)
  then have err: "err = None"
    using schedule_task_raises [OF _ ok, of olt ?t] q assms(3)
    by (cases err) (auto simp: queued_tasks_def)
  let ?x = "(ex s)\<lparr>tasks := q, futures := (futures (ex s))(next_future (ex s) := PENDING),
              next_future := Suc (next_future (ex s))\<rparr>"
  have sch: "schedule_delayed olt (now s) delay prio act vs [] (ex s) = (Inr (next_future (ex s)), ?x)"
    using schedule_when_running [OF l st] q err by (simp add: Let_def)
  show thesis
  proof (rule that)
    show "sys_schedule olt delay prio act vs s = (Inr (next_future (ex s)), s\<lparr>ex := ?x, worker := notify (worker s)\<rparr>)"
      by (simp add: sys_schedule_def sch)
    show "queued_tasks (s\<lparr>ex := ?x, worker := notify (worker s)\<rparr>) = add_mset ?t (queued_tasks s)"
      using tq.schedule_adds [of olt ?t "tasks (ex s)"] q by (simp add: queued_tasks_def)
    show "sys_fine (s\<lparr>ex := ?x, worker := notify (worker s)\<rparr>)"
      using schedule_task_ok [OF ok, of olt ?t] q l by (simp add: sys_fine_def)
  qed (use st in \<open>simp_all add: running_def\<close>)
qed

lemma sys_schedule_stopped:
  "sys_fine s \<Longrightarrow> \<not> running s \<Longrightarrow> sys_schedule olt delay prio act vs s = (Inl Stopped_exc, s)"
  by (simp add: sys_schedule_def sys_fine_def running_def schedule_when_stopped)

section \<open>Properties\<close>

text \<open>
  Data for a host is handed to its thread: when the host runs and no queued task has the
  same time and top priority, \<open>on_incoming_data\<close> queues exactly one task, due at once, that
  gives exactly this frame to exactly this interface; when the host does not run it raises
  \<open>Stopped\<close> and changes nothing.
\<close>

lemma host_queues_frame:
  assumes "reachable host_val_lt s" and "\<not> crashed (worker s)"
    and "\<forall>u \<in> set (get_tasks (tasks (ex s))). task_key u \<noteq> Task_Key (now s) TOP_PRIO"
  shows "if status (ex s) = Running
    then \<exists>s'. on_incoming_data i d s = (Inr (), s') \<and>
      mset (get_tasks (tasks (ex s'))) =
        add_mset (new_task (now s) IMMEDIATE TOP_PRIO (Input_data i) [Frame_val d] [] (next_future (ex s)))
          (mset (get_tasks (tasks (ex s))))
    else on_incoming_data i d s = (Inl Stopped_exc, s)"
proof -
  have fine: "sys_fine s" using reachable_fine [OF assms(1,2)] .
  show ?thesis
  proof (cases "running s")
    case True
    have "\<forall>u \<in># queued_tasks s. task_key u \<noteq> Task_Key (now s + IMMEDIATE) TOP_PRIO"
      using assms(3) by (simp add: queued_tasks_def IMMEDIATE_def)
    from sys_schedule_running [OF fine True this, of host_val_lt "Input_data i" "[Frame_val d]"] obtain s' where
      "sys_schedule host_val_lt IMMEDIATE TOP_PRIO (Input_data i) [Frame_val d] s = (Inr (next_future (ex s)), s')"
      "queued_tasks s' = add_mset (new_task (now s) IMMEDIATE TOP_PRIO (Input_data i) [Frame_val d] [] (next_future (ex s)))
        (queued_tasks s)" by metis
    with True show ?thesis by (simp add: on_incoming_data_def py_simps running_def queued_tasks_def)
  next
    case False
    with sys_schedule_stopped [OF fine False] show ?thesis
      by (simp add: on_incoming_data_def py_simps running_def)
  qed
qed

text \<open>
  Between \<open>start\<close> and the thread's first block a host refuses every call: from a host that
  has never run, \<open>start\<close> followed by \<open>set_up_interfaces\<close>, \<open>on_incoming_data\<close> or \<open>execute\<close>
  raises \<open>Stopped\<close> unless the thread has entered \<open>run\<close> in between. A second \<open>start\<close> raises
  \<open>RuntimeError\<close>.
\<close>

lemma host_start_race:
  "let s = snd (host_start (init_sys t0 :: 'r host_sys)) in
   fst (host_start (init_sys t0 :: 'r host_sys)) = Inr () \<and> host_start s = (Inl RuntimeError, s) \<and>
   set_up_interfaces (\<lambda>m. m) result sync s = (Inl Stopped_exc, s) \<and> on_incoming_data i d s = (Inl Stopped_exc, s) \<and>
   execute self act delay s = (Inl Stopped_exc, s) \<and>
   (\<exists>s'. sched_step host_val_lt s EnterRun s' \<and> fst (set_up_interfaces (\<lambda>m. m) result False s') = Inr ())"
proof -
  let ?s = "(init_sys t0 :: 'r host_sys)\<lparr>worker := Starting\<rparr>"
  have s: "snd (host_start (init_sys t0 :: 'r host_sys)) = ?s" "fst (host_start (init_sys t0 :: 'r host_sys)) = Inr ()"
    by (simp_all add: host_start_def thread_start_def init_sys_def)
  have fine: "sys_fine ?s" and stopped: "\<not> running ?s"
    by (simp_all add: sys_fine_def running_def init_sys_def new_executor_def queue_ok_new)
  note refused = sys_schedule_stopped [OF fine stopped]
  let ?r = "?s\<lparr>ex := run_prologue (ex ?s), worker := Checking\<rparr>"
  have enter: "sched_step host_val_lt ?s EnterRun ?r"
    by (rule sched_step.enter_run) simp
  have r: "sys_fine ?r" "running ?r" "\<forall>u \<in># queued_tasks ?r. task_key u \<noteq> Task_Key (now ?r + IMMEDIATE) TOP_PRIO"
    "next_future (ex ?r) = 0"
    by (simp_all add: sys_fine_def running_def init_sys_def new_executor_def queue_ok_new [unfolded new_queue_def] run_prologue_def
        queued_tasks_def new_queue_def)
  have "fst (set_up_interfaces (\<lambda>m. m) result False ?r) = Inr ()"
    unfolding set_up_interfaces_def
    by (rule sys_schedule_running [OF r(1-3), of host_val_lt Set_up_interfaces "[]"])
      (simp add: py_simps run_prologue_def init_sys_def new_executor_def)
  with enter refused s show ?thesis
    by (auto simp: Let_def host_start_def thread_start_def set_up_interfaces_def on_incoming_data_def execute_def py_simps)
qed

end
