(* ===== verification/Network.thy ===== *)
theory Network imports Host begin

text \<open>
  \<^verbatim>\<open>lwip_py/emulation/ethernet_network.py\<close>: hosts connected by a bus. The bus's
  thread hands a frame to the executors of the other interfaces' hosts; each call of
  \<open>schedule_delayed\<close> reads the monotonic clock, whose readings are \<open>readings\<close>.
\<close>

section \<open>The hosts as seen by the bus\<close>

record 'r net =
  hosts :: "nat \<Rightarrow> 'r host_sys"
  owner :: "nat \<Rightarrow> nat"
  readings :: "nat \<Rightarrow> rat"
  reads :: nat

definition read_clock :: "'r net \<Rightarrow> rat" where
  "read_clock s = readings s (reads s)"

text \<open>The callback the network registers for an interface: its host's \<open>on_incoming_data\<close>.\<close>

definition deliver :: "nat \<Rightarrow> frame \<Rightarrow> ('r net, unit) py" where
  "deliver i d s =
     (let h = owner s i; t = read_clock s in
      case on_incoming_data i d ((hosts s h)\<lparr>now := t\<rparr>) of
        (r, x) \<Rightarrow> (r, s\<lparr>hosts := (hosts s)(h := x), reads := Suc (reads s)\<rparr>))"

text \<open>The frames that wait in the queue of an interface's host for that interface.\<close>

definition frame_of :: "(host_action, host_val) task \<Rightarrow> frame" where
  "frame_of t = (case args t of [Frame_val d] \<Rightarrow> d | _ \<Rightarrow> [])"

definition inbox :: "'r net \<Rightarrow> nat \<Rightarrow> frame multiset" where
  "inbox s i = image_mset frame_of {#t \<in># queued_tasks (hosts s (owner s i)). action t = Input_data i#}"

definition up :: "'r net \<Rightarrow> nat \<Rightarrow> bool" where
  "up s i \<longleftrightarrow> running (hosts s (owner s i))"

text \<open>
  The clock never shows a time twice, and no queued task has the time of a reading to come at
  top priority.
\<close>

definition net_ok :: "'r net \<Rightarrow> bool" where
  "net_ok s \<longleftrightarrow> inj (readings s) \<and>
     (\<forall>h. sys_fine (hosts s h) \<and>
        (\<forall>n \<ge> reads s. \<forall>u \<in># queued_tasks (hosts s h). task_key u \<noteq> Task_Key (readings s n) TOP_PRIO))"

lemma now_update_simps [simp]:
  "sys_fine (s\<lparr>now := t\<rparr>) = sys_fine s" "running (s\<lparr>now := t\<rparr>) = running s"
  "queued_tasks (s\<lparr>now := t\<rparr>) = queued_tasks s"
  by (simp_all add: sys_fine_def running_def queued_tasks_def)

lemma new_task_key: "task_key (new_task time delay prio act vs kws fut) = Task_Key (time + delay) prio"
  by (simp add: task_key_def new_task_def)

lemma new_frame_simps:
  "action (new_task time delay prio act vs kws fut) = act"
  "frame_of (new_task time delay prio act [Frame_val d] kws fut) = d"
  by (simp_all add: new_task_def frame_of_def)

lemma deliver_to_running:
  assumes ok: "net_ok s" and up: "up s i"
  shows "\<exists>s'. deliver i d s = (Inr (), s') \<and> inbox s' = (inbox s)(i := add_mset d (inbox s i)) \<and> up s' = up s \<and> net_ok s'"
proof -
  let ?h = "owner s i" and ?t = "read_clock s"
  let ?x = "(hosts s ?h)\<lparr>now := ?t\<rparr>"
  have fine: "sys_fine ?x" and run: "running ?x"
    using ok up by (simp_all add: net_ok_def up_def)
  have "\<forall>u \<in># queued_tasks ?x. task_key u \<noteq> Task_Key (now ?x + IMMEDIATE) TOP_PRIO"
    using ok by (simp add: net_ok_def read_clock_def IMMEDIATE_def)
  from sys_schedule_running [OF fine run this, of host_val_lt "Input_data i" "[Frame_val d]"] obtain x' f where
    x': "sys_schedule host_val_lt IMMEDIATE TOP_PRIO (Input_data i) [Frame_val d] ?x = (Inr f, x')"
    "queued_tasks x' = add_mset (new_task ?t IMMEDIATE TOP_PRIO (Input_data i) [Frame_val d] [] f) (queued_tasks (hosts s ?h))"
    "running x'" "sys_fine x'"
    by (metis now_update_simps(3) sys.select_convs(3) sys.surjective sys.update_convs(3))
  let ?s = "s\<lparr>hosts := (hosts s)(?h := x'), reads := Suc (reads s)\<rparr>"
  have del: "deliver i d s = (Inr (), ?s)"
    by (simp add: deliver_def on_incoming_data_def py_bind_def py_return_def x'(1) Let_def)
  have "inbox ?s k = ((inbox s)(i := add_mset d (inbox s i))) k" for k
    by (simp add: inbox_def x'(2) new_frame_simps)
  moreover have "up ?s = up s" using run x'(3) by (auto simp: up_def fun_eq_iff)
  moreover have "net_ok ?s"
    unfolding net_ok_def
  proof (intro conjI allI impI)
    show "inj (readings ?s)" using ok by (simp add: net_ok_def)
    show "sys_fine (hosts ?s h)" for h using ok x'(4) by (simp add: net_ok_def)
    show "\<forall>u \<in># queued_tasks (hosts ?s h). task_key u \<noteq> Task_Key (readings ?s n) TOP_PRIO" if "reads ?s \<le> n" for h n
    proof -
      have "readings s n \<noteq> ?t"
        using ok that by (auto simp: net_ok_def read_clock_def dest!: injD)
      then show ?thesis
        using ok that by (auto simp: net_ok_def x'(2) new_task_key IMMEDIATE_def)
    qed
  qed
  ultimately show ?thesis using del by blast
qed

lemma deliver_to_stopped:
  assumes "net_ok s" and "\<not> up s i"
  shows "\<exists>e s'. deliver i d s = (Inl e, s') \<and> inbox s' = inbox s \<and> up s' = up s"
proof -
  let ?x = "(hosts s (owner s i))\<lparr>now := read_clock s\<rparr>"
  have "sys_fine ?x" "\<not> running ?x" using assms by (simp_all add: net_ok_def up_def)
  from sys_schedule_stopped [OF this, of host_val_lt IMMEDIATE TOP_PRIO "Input_data i" "[Frame_val d]"]
  have "deliver i d s = (Inl Stopped_exc, s\<lparr>hosts := (hosts s)(owner s i := ?x), reads := Suc (reads s)\<rparr>)"
    by (simp add: deliver_def on_incoming_data_def py_bind_def Let_def)
  then show ?thesis by (auto simp: inbox_def up_def fun_eq_iff)
qed

interpretation rx: frame_receivers deliver inbox up net_ok
  by unfold_locales (use deliver_to_running deliver_to_stopped in blast)+

section \<open>Properties of a broadcast\<close>


text \<open>Three hosts with an interface each; the third host can be down.\<close>

definition host_up :: "nat host_sys" where
  "host_up = (init_sys 0)\<lparr>ex := run_prologue new_executor\<rparr>"

definition sample_net :: "bool \<Rightarrow> nat net" where
  "sample_net third_up = \<lparr>hosts = (\<lambda>h. if h = 2 \<and> \<not> third_up then init_sys 0 else host_up), owner = (\<lambda>i. i),
     readings = of_nat, reads = 0\<rparr>"

definition sample_bus :: "nat net bus" where
  "sample_bus = \<lparr>bus_interfaces = connected deliver [0, 1, 2, 3], observers = [],
     filters = map pure_filter [\<lambda>i d. d \<noteq> []]\<rparr>"

lemma sample_hosts:
  "sys_fine (hosts (sample_net b) h)" "queued_tasks (hosts (sample_net b) h) = {#}"
  "running (hosts (sample_net b) h) \<longleftrightarrow> b \<or> h \<noteq> 2"
  by (auto simp: sample_net_def host_up_def sys_fine_def running_def queued_tasks_def init_sys_def
      new_executor_def run_prologue_def new_queue_def queue_ok_new [unfolded new_queue_def])

lemma sample_net_ok: "net_ok (sample_net b)"
proof -
  have "inj (readings (sample_net b))" by (simp add: sample_net_def inj_of_nat)
  then show ?thesis by (simp add: net_ok_def sample_hosts)
qed

lemma sample_net_up: "up (sample_net b) i \<longleftrightarrow> b \<or> i \<noteq> 2"
  unfolding up_def sample_hosts(3) by (simp add: sample_net_def)

lemma sample_inbox: "inbox (sample_net b) i = {#}"
  unfolding inbox_def sample_hosts(2) by simp




section \<open>The class\<close>

text \<open>
  The objects of a network: its hosts' stacks and threads by identity, the bus's thread, the
  interfaces on the bus (host, interface) in the order they were connected, and the
  dictionary of host names.
\<close>

record 'l network =
  path_to_lwip_lib :: string
  named_hosts :: "(string \<times> nat) list"
  stacks :: "nat \<Rightarrow> 'l stack"
  threads :: "nat \<Rightarrow> unit host_sys"
  bus_thread :: "(bus_action, bus_val, unit) sys"
  on_bus :: "(nat \<times> nat) list"
  next_host :: nat
  net_status_callback :: "nat option"
  net_link_callback :: "nat option"
  net_time :: rat

definition network_init :: "string \<Rightarrow> (nat \<Rightarrow> 'l stack) \<Rightarrow> rat \<Rightarrow> 'l network" where
  "network_init path stks t0 = \<lparr>path_to_lwip_lib = path, named_hosts = [], stacks = stks,
     threads = (\<lambda>_. init_sys t0), bus_thread = init_sys t0, on_bus = [], next_host = 0,
     net_status_callback = None, net_link_callback = None, net_time = t0\<rparr>"

definition on_stack :: "nat \<Rightarrow> ('l stack, 'a) py \<Rightarrow> ('l network, 'a) py" where
  "on_stack h f s = (case f (stacks s h) of (r, x) \<Rightarrow> (r, s\<lparr>stacks := (stacks s)(h := x)\<rparr>))"

definition on_thread :: "nat \<Rightarrow> (unit host_sys, 'a) py \<Rightarrow> ('l network, 'a) py" where
  "on_thread h f s = (case f (threads s h) of (r, x) \<Rightarrow> (r, s\<lparr>threads := (threads s)(h := x)\<rparr>))"

text \<open>
  One interface of \<open>add_host\<close>; 0 and 1 name the network's two internal callbacks, 2 the bus's
  output callback, 3 is its identity as a callable. The bus appends the interface to its list
  before it sets the output callback.
\<close>

definition add_host_interface ::
  "nat \<Rightarrow> string \<times> string \<times> string option \<times> string option \<Rightarrow> ('l network, unit) py" where
  "add_host_interface h = (\<lambda>(nm, address, network_mask, gateway).
     py_bind (on_stack h (add_network_interface nm address network_mask gateway)) (\<lambda>k.
     py_bind (on_stack h (on_netif k (set_status_callbacks (Some 0) (Some 1)))) (\<lambda>_.
     py_bind (\<lambda>s. (Inr (), s\<lparr>on_bus := on_bus s @ [(h, k)]\<rparr>)) (\<lambda>_.
     on_stack h (on_netif k (set_output_callbacks 2 None))))))"

definition add_host ::
  "'l loads \<Rightarrow> string \<Rightarrow> (string \<times> string \<times> string option \<times> string option) list \<Rightarrow> ('l network, unit) py" where
  "add_host loads host_name host_interfaces s =
     (let h = next_host s;
          s = s\<lparr>stacks := (stacks s)(h := stack_new (make_loader (path_to_lwip_lib s)) (stack_mem (stacks s h)) h),
                next_host := Suc h\<rparr>
      in py_bind (on_stack h (host_init loads (net_time s) :: ('l stack, unit host_sys) py)) (\<lambda>thread s.
         py_bind (py_for host_interfaces (add_host_interface h)) (\<lambda>_ s.
           (Inr (), s\<lparr>named_hosts := AList.update host_name h (named_hosts s)\<rparr>))
         (s\<lparr>threads := (threads s)(h := thread)\<rparr>)) s)"

definition get_host :: "string \<Rightarrow> 'l network \<Rightarrow> nat res" where
  "get_host host_name s = (case map_of (named_hosts s) host_name of None \<Rightarrow> Inl KeyError | Some h \<Rightarrow> Inr h)"

definition net_set_status_callbacks :: "nat option \<Rightarrow> nat option \<Rightarrow> 'l network \<Rightarrow> 'l network" where
  "net_set_status_callbacks st lk s = s\<lparr>net_status_callback := st, net_link_callback := lk\<rparr>"

definition on_bus_thread :: "((bus_action, bus_val, unit) sys, 'a) py \<Rightarrow> ('l network, 'a) py" where
  "on_bus_thread f s = (case f (bus_thread s) of (r, x) \<Rightarrow> (r, s\<lparr>bus_thread := x\<rparr>))"

definition bus_start :: "('l network, unit) py" where
  "bus_start = on_bus_thread thread_start"

definition network_start :: "('l network, unit) py" where
  "network_start =
     py_bind bus_start (\<lambda>_ s.
     py_for (map snd (named_hosts s)) (\<lambda>h. on_thread h host_start) s)"

text \<open>
  The calls that wait: \<open>join_bus\<close>, \<open>join h\<close> and \<open>result h f\<close> wait for the bus's thread, for a host's
  thread and for a future of a host.
\<close>

definition bus_stop :: "('l network, unit) py \<Rightarrow> ('l network, unit) py" where
  "bus_stop join_bus = py_bind (on_bus_thread (sys_stop True)) (\<lambda>_. join_bus)"

definition network_stop :: "('l network, unit) py \<Rightarrow> (nat \<Rightarrow> ('l network, unit) py) \<Rightarrow> ('l network, unit) py" where
  "network_stop join_bus join =
     py_bind (bus_stop join_bus) (\<lambda>_ s.
     py_for (map snd (named_hosts s)) (\<lambda>h. host_stop (on_thread h) (join h)) s)"

definition network_set_up_interfaces :: "(nat \<Rightarrow> nat \<Rightarrow> ('l network, unit) py) \<Rightarrow> ('l network, unit) py" where
  "network_set_up_interfaces result s =
     py_for (map snd (named_hosts s)) (\<lambda>h. set_up_interfaces (on_thread h) (result h) True) s"

text \<open>The internal callbacks forward to the callables set at the time of the event.\<close>

definition internal_status_callback :: "(nat \<Rightarrow> nat \<Rightarrow> ('l network, unit) py) \<Rightarrow> nat \<Rightarrow> ('l network, unit) py" where
  "internal_status_callback call net_if s =
     (case net_status_callback s of None \<Rightarrow> (Inr (), s) | Some f \<Rightarrow> call f net_if s)"

definition internal_link_callback :: "(nat \<Rightarrow> nat \<Rightarrow> ('l network, unit) py) \<Rightarrow> nat \<Rightarrow> ('l network, unit) py" where
  "internal_link_callback call net_if s =
     (case net_link_callback s of None \<Rightarrow> (Inr (), s) | Some f \<Rightarrow> call f net_if s)"

section \<open>What adding a host does\<close>

lemma add_host_interface_effect:
  assumes "add_host_interface h iface s = (r, s')"
  shows "named_hosts s' = named_hosts s \<and> next_host s' = next_host s \<and> threads s' = threads s \<and>
    bus_thread s' = bus_thread s \<and>
    (\<exists>ks. on_bus s' = on_bus s @ map (Pair h) ks \<and> length ks \<le> 1 \<and> (r = Inr () \<longrightarrow> length ks = 1))"
proof -
  obtain nm address nmask gateway where i: "iface = (nm, address, nmask, gateway)" by (cases iface) auto
  obtain q x where q: "add_network_interface nm address nmask gateway (stacks s h) = (q, x)" by force
  show ?thesis
  proof (cases q)
    case (Inl e)
    with assms i q have "r = Inl e" "s' = s\<lparr>stacks := (stacks s)(h := x)\<rparr>"
      by (simp_all add: add_host_interface_def on_stack_def py_bind_def)
    then show ?thesis by auto
  next
    case (Inr k)
    obtain q2 x2 where q2: "on_netif k (set_status_callbacks (Some 0) (Some 1)) x = (q2, x2)" by force
    show ?thesis
    proof (cases q2)
      case (Inl e)
      with assms i q Inr q2 have "r = Inl e" "s' = s\<lparr>stacks := (stacks s)(h := x2)\<rparr>"
        by (simp_all add: add_host_interface_def on_stack_def py_bind_def)
      then show ?thesis by auto
    next
      case (Inr u)
      obtain q3 x3 where q3: "on_netif k (set_output_callbacks 2 None) x2 = (q3, x3)" by force
      have "s' = s\<lparr>stacks := (stacks s)(h := x3), on_bus := on_bus s @ [(h, k)]\<rparr>"
        using assms i q \<open>q = Inr k\<close> q2 Inr q3 by (auto simp: add_host_interface_def on_stack_def py_bind_def)
      then show ?thesis by (auto intro: exI [of _ "[k]"])
    qed
  qed
qed

lemma add_host_interfaces_effect:
  assumes "py_for ifaces (add_host_interface h) s = (r, s')"
  shows "named_hosts s' = named_hosts s \<and> next_host s' = next_host s \<and> threads s' = threads s \<and>
    bus_thread s' = bus_thread s \<and>
    (\<exists>ks. on_bus s' = on_bus s @ map (Pair h) ks \<and> length ks \<le> length ifaces \<and>
       (r = Inr () \<longrightarrow> length ks = length ifaces))"
  using assms
proof (induction ifaces arbitrary: s)
  case Nil
  then show ?case by (auto simp: py_simps)
next
  case (Cons iface ifaces)
  obtain q s1 where q: "add_host_interface h iface s = (q, s1)" by force
  from add_host_interface_effect [OF this] obtain ks where s1: "named_hosts s1 = named_hosts s"
    "next_host s1 = next_host s" "threads s1 = threads s" "bus_thread s1 = bus_thread s"
    "on_bus s1 = on_bus s @ map (Pair h) ks" "length ks \<le> 1" "q = Inr () \<longrightarrow> length ks = 1" by blast
  show ?case
  proof (cases q)
    case (Inl e)
    with Cons.prems q have "r = Inl e" "s' = s1" by (simp_all add: py_bind_def)
    with s1 show ?thesis by (intro conjI exI [of _ ks]) auto
  next
    case (Inr u)
    with Cons.prems q have "py_for ifaces (add_host_interface h) s1 = (r, s')" by (simp add: py_bind_def)
    from Cons.IH [OF this] obtain ks' where s2: "named_hosts s' = named_hosts s1"
      "next_host s' = next_host s1" "threads s' = threads s1" "bus_thread s' = bus_thread s1"
      "on_bus s' = on_bus s1 @ map (Pair h) ks'" "length ks' \<le> length ifaces"
      "r = Inr () \<longrightarrow> length ks' = length ifaces" by blast
    with s1 Inr show ?thesis by (intro conjI exI [of _ "ks @ ks'"]) auto
  qed
qed


text \<open>A host whose interface has an address that is none.\<close>

definition sample_loads :: "nat list loads" where
  "sample_loads = ((\<lambda>_. Some ''tmp''), (\<lambda>_. Inr (netif_lib 4)))"

definition sample_network :: "nat list network" where
  "sample_network = network_init ''liblwip.so'' (\<lambda>h. stack_new (make_loader ''liblwip.so'') sample_mem h) 0"

definition bad_host :: "(nat list network, unit) py" where
  "bad_host = add_host sample_loads ''peer'' [(''eth0'', ''none'', None, None)]"


section \<open>Starting\<close>

lemma start_hosts:
  assumes "distinct hs" and "\<forall>h \<in> set hs. worker (threads s h) = NotStarted"
  shows "\<exists>s'. py_for hs (\<lambda>h. on_thread h host_start) s = (Inr (), s') \<and> named_hosts s' = named_hosts s \<and>
    bus_thread s' = bus_thread s \<and>
    (\<forall>h. threads s' h = (if h \<in> set hs then (threads s h)\<lparr>worker := Starting\<rparr> else threads s h))"
  using assms
proof (induction hs arbitrary: s)
  case Nil
  then show ?case by (simp add: py_simps)
next
  case (Cons h hs)
  let ?s = "s\<lparr>threads := (threads s)(h := (threads s h)\<lparr>worker := Starting\<rparr>)\<rparr>"
  have start: "on_thread h host_start s = (Inr (), ?s)"
    using Cons.prems(2) by (simp add: on_thread_def host_start_def thread_start_def)
  have pending: "\<forall>k \<in> set hs. worker (threads ?s k) = NotStarted"
    using Cons.prems by auto
  obtain s' where "py_for hs (\<lambda>h. on_thread h host_start) ?s = (Inr (), s')" "named_hosts s' = named_hosts s"
    "bus_thread s' = bus_thread s"
    "\<forall>k. threads s' k = (if k \<in> set hs then (threads ?s k)\<lparr>worker := Starting\<rparr> else threads ?s k)"
    using Cons.IH [of ?s] pending Cons.prems(1) by auto
  with start Cons.prems(1) show ?case by (auto simp: py_bind_def)
qed

text \<open>
  \<open>start\<close> of a network that has not been started starts the bus's thread and each host's
  thread, once; but it does not wait for them, so until a host's thread has entered \<open>run\<close> its
  executor is still stopped, and \<open>set_up_interfaces\<close> called at once raises \<open>Stopped\<close>.
\<close>

lemma network_start_does_not_wait:
  assumes "worker (bus_thread s) = NotStarted" and "distinct (map snd (named_hosts s))"
    and "\<forall>h \<in> snd ` set (named_hosts s). worker (threads s h) = NotStarted \<and> ex (threads s h) = new_executor"
    and "named_hosts s \<noteq> []"
  shows "\<exists>s'. network_start s = (Inr (), s') \<and> bus_thread s' = (bus_thread s)\<lparr>worker := Starting\<rparr> \<and>
    (\<forall>h \<in> snd ` set (named_hosts s). threads s' h = (threads s h)\<lparr>worker := Starting\<rparr>) \<and>
    network_set_up_interfaces result s' = (Inl Stopped_exc, s') \<and> fst (network_start s') = Inl RuntimeError"
proof -
  let ?s = "s\<lparr>bus_thread := (bus_thread s)\<lparr>worker := Starting\<rparr>\<rparr>" and ?hs = "map snd (named_hosts s)"
  have bus: "on_bus_thread thread_start s = (Inr (), ?s)"
    using assms(1) by (simp add: on_bus_thread_def thread_start_def)
  obtain s' where s': "py_for ?hs (\<lambda>h. on_thread h host_start) ?s = (Inr (), s')" "named_hosts s' = named_hosts s"
    "bus_thread s' = bus_thread ?s"
    "\<forall>h. threads s' h = (if h \<in> set ?hs then (threads s h)\<lparr>worker := Starting\<rparr> else threads s h)"
    using start_hosts [of ?hs ?s] assms(2,3) by auto
  have start: "network_start s = (Inr (), s')"
    using bus s'(1) by (simp add: network_start_def bus_start_def py_bind_def)
  obtain nm h rest where hs: "named_hosts s = (nm, h) # rest" using assms(4) by (cases "named_hosts s") auto
  let ?x = "threads s' h"
  have x: "worker ?x = Starting" "ex ?x = new_executor" using assms(3) s'(4) hs by auto
  then have "sys_fine ?x" "\<not> running ?x"
    by (simp_all add: sys_fine_def running_def new_executor_def queue_ok_new)
  from sys_schedule_stopped [OF this]
  have "set_up_interfaces (on_thread h) (result h) True s' = (Inl Stopped_exc, s'\<lparr>threads := (threads s')(h := ?x)\<rparr>)"
    by (simp add: set_up_interfaces_def on_thread_def py_simps)
  then have "network_set_up_interfaces result s' = (Inl Stopped_exc, s')"
    using s'(2) hs by (simp add: network_set_up_interfaces_def py_simps)
  moreover have "fst (network_start s') = Inl RuntimeError"
    using s'(3) by (simp add: network_start_def bus_start_def on_bus_thread_def thread_start_def py_bind_def)
  ultimately show ?thesis using start s'(3,4) by auto
qed

end
