(* ===== verification/HostInterfaces.thy ===== *)
theory HostInterfaces imports Host begin

text \<open>
  What \<^verbatim>\<open>Host._set_up_interfaces\<close> does to the interfaces of a stack.
\<close>

text \<open>
  \<^verbatim>\<open>netif_set_up\<close> and \<^verbatim>\<open>netif_set_link_up\<close> as lwIP documents them: they set one
  flag of the interface they are given and no flag of another. What else they do to the
  memory is open.
\<close>

definition sets_flag :: "'l lwip_lib \<Rightarrow> string \<Rightarrow> byte \<Rightarrow> bool" where
  "sets_flag lwip fname fl \<longleftrightarrow>
     (\<exists>f. lwip fname = Some f \<and>
        (\<forall>m i. \<exists>m'. f [CPtr i] m = (CVoid, m') \<and> flags (netifs m' i) = flags (netifs m i) OR fl \<and>
           (\<forall>k. k \<noteq> i \<longrightarrow> flags (netifs m' k) = flags (netifs m k))))"

definition netif_up_law :: "'l lwip_lib \<Rightarrow> bool" where
  "netif_up_law lwip \<longleftrightarrow> sets_flag lwip ''netif_set_up'' 1 \<and> sets_flag lwip ''netif_set_link_up'' 4"

definition flags_of :: "'l stack \<Rightarrow> nat \<Rightarrow> byte" where
  "flags_of s k = flags (netifs (stack_mem s) k)"

lemma netif_call_sets:
  assumes "sets_flag lwip fname fl" and "netif_objs s k = Some n" and "interface n = k"
  obtains s' where "on_netif k (netif_call lwip fname) s = (Inr (), s')" and "netif_objs s' = netif_objs s"
    and "stack_interfaces s' = stack_interfaces s" and "flags_of s' = (flags_of s)(k := flags_of s k OR fl)"
proof -
  obtain f m' where f: "lwip fname = Some f" "f [CPtr k] (stack_mem s) = (CVoid, m')"
    "flags (netifs m' k) = flags (netifs (stack_mem s) k) OR fl"
    "\<forall>i. i \<noteq> k \<longrightarrow> flags (netifs m' i) = flags (netifs (stack_mem s) i)"
    using assms(1) unfolding sets_flag_def by metis
  have "on_netif k (netif_call lwip fname) s =
      (Inr (), s\<lparr>stack_mem := m', netif_objs := (netif_objs s)(k := Some n)\<rparr>)"
    using f(1,2) assms(2,3)
    by (simp add: on_netif_def netif_call_def wrap_function_def call_function_def get_netif_def py_simps)
  then show thesis
    by (rule that) (use f(3,4) assms(2) in \<open>auto simp: flags_of_def\<close>)
qed

lemma set_up_all:
  assumes law: "netif_up_law lwip" and "\<forall>k \<in> set ks. \<exists>n. netif_objs s k = Some n \<and> interface n = k" and "distinct ks"
  shows "\<exists>s'. py_for ks (\<lambda>k. py_bind (on_netif k (set_link_up lwip)) (\<lambda>_. on_netif k (set_up lwip))) s = (Inr (), s') \<and>
    netif_objs s' = netif_objs s \<and> stack_interfaces s' = stack_interfaces s \<and>
    flags_of s' = (\<lambda>k. if k \<in> set ks then flags_of s k OR 5 else flags_of s k)"
  using assms(2,3)
proof (induction ks arbitrary: s)
  case Nil
  then show ?case by (simp add: py_simps)
next
  case (Cons k ks)
  note laws = law [unfolded netif_up_law_def]
  obtain n where n: "netif_objs s k = Some n" "interface n = k" using Cons.prems(1) by auto
  obtain s1 where s1: "on_netif k (set_link_up lwip) s = (Inr (), s1)" "netif_objs s1 = netif_objs s"
    "stack_interfaces s1 = stack_interfaces s" "flags_of s1 = (flags_of s)(k := flags_of s k OR 4)"
    using netif_call_sets [OF conjunct2 [OF laws] n] unfolding set_link_up_def by metis
  have n1: "netif_objs s1 k = Some n" using n s1(2) by simp
  obtain s2 where s2: "on_netif k (set_up lwip) s1 = (Inr (), s2)" "netif_objs s2 = netif_objs s"
    "stack_interfaces s2 = stack_interfaces s" "flags_of s2 = (flags_of s1)(k := flags_of s1 k OR 1)"
    using netif_call_sets [OF conjunct1 [OF laws] n1 n(2)] s1(2,3) unfolding set_up_def by metis
  have "\<forall>i \<in> set ks. \<exists>n. netif_objs s2 i = Some n \<and> interface n = i" using Cons.prems(1) s2(2) by simp
  from Cons.IH [OF this] Cons.prems(2) obtain s' where
    "py_for ks (\<lambda>k. py_bind (on_netif k (set_link_up lwip)) (\<lambda>_. on_netif k (set_up lwip))) s2 = (Inr (), s')"
    "netif_objs s' = netif_objs s2" "stack_interfaces s' = stack_interfaces s2"
    "flags_of s' = (\<lambda>k. if k \<in> set ks then flags_of s2 k OR 5 else flags_of s2 k)" by auto
  with s1(1,4) s2 Cons.prems(2) show ?case
    by (auto simp: py_bind_def fun_eq_iff or.assoc)
qed

text \<open>
  C40: the action that \<open>set_up_interfaces\<close> schedules brings up every interface of the stack: it
  returns, and afterwards each of them has the flags UP and LINK beside those it had, whatever
  else the library has done, and no other structure's flags are changed.
\<close>

theorem interfaces_come_up:
  assumes "stack_ok s" and "stack_lwip s = Some lwip" and "netif_up_law lwip"
  shows "\<exists>s'. set_up_interfaces_now s = (Inr (), s') \<and> get_interfaces s' = get_interfaces s \<and>
    flags_of s' = (\<lambda>k. if k \<in> snd ` set (get_interfaces s) then flags_of s k OR 5 else flags_of s k)"
proof -
  have "\<forall>k \<in> set (map snd (get_interfaces s)). \<exists>n. netif_objs s k = Some n \<and> interface n = k"
    and "distinct (map snd (get_interfaces s))"
    using assms(1) by (auto simp: stack_ok_def get_interfaces_def)
  note all = set_up_all [OF assms(3) this]
  have "set_up_interfaces_now s = py_for (map snd (get_interfaces s))
      (\<lambda>k. py_bind (on_netif k (set_link_up lwip)) (\<lambda>_. on_netif k (set_up lwip))) s"
    by (simp add: set_up_interfaces_now_def get_lwip_def assms(2) py_bind_def)
  with all show ?thesis unfolding get_interfaces_def set_map by (simp only:) blast
qed

text \<open>A library whose two functions do that, and a stack with two interfaces.\<close>

definition or_flag :: "byte \<Rightarrow> c_val list \<Rightarrow> sample_mem \<Rightarrow> c_val \<times> sample_mem" where
  "or_flag fl cs m =
     (let i = ptr_of (cs ! 0) in (CVoid, m\<lparr>netifs := (netifs m)(i := (netifs m i)\<lparr>flags := flags (netifs m i) OR fl\<rparr>)\<rparr>))"

definition up_lib :: "nat list lwip_lib" where
  "up_lib fname =
     (if fname = ''netif_set_up'' then Some (or_flag 1)
      else if fname = ''netif_set_link_up'' then Some (or_flag 4)
      else netif_lib 1 fname)"

definition up_stack :: "nat list stack" where
  "up_stack = sample_stack\<lparr>stack_lwip := Some up_lib, stack_interfaces := [(''eth0'', 1), (''eth1'', 2)], next_obj := 3,
     netif_objs := [1 \<mapsto> sample_netif\<lparr>netif_name := ''eth0'', netif_id := 1\<rparr>,
                    2 \<mapsto> sample_netif\<lparr>netif_name := ''eth1'', netif_id := 2, interface := 2\<rparr>]\<rparr>"

theorem interfaces_come_up_witness:
  "\<exists>s'. set_up_interfaces_now up_stack = (Inr (), s') \<and> flags_of s' 1 = 5 \<and> flags_of s' 2 = 5 \<and> flags_of s' 3 = 0"
proof -
  have law: "netif_up_law up_lib"
    by (simp add: netif_up_law_def sets_flag_def up_lib_def or_flag_def)
  have "interface sample_netif = 1" by code_simp
  then have ok: "stack_ok up_stack" by (simp add: stack_ok_def up_stack_def)
  have "flags_of up_stack k = 0" for k
    by (simp add: flags_of_def up_stack_def sample_stack_def stack_new_def sample_mem_def empty_netif_def)
  moreover have "snd ` set (get_interfaces up_stack) = {1, 2}" "stack_lwip up_stack = Some up_lib"
    by (simp_all add: up_stack_def get_interfaces_def)
  ultimately show ?thesis using interfaces_come_up [OF ok _ law] by auto
qed

end
