(* ===== verification/FramePath.thy ===== *)
theory FramePath imports Network HostInterfaces begin

text \<open>
  The path of a frame: from a stack's link output over the bus to the stacks of the other hosts.
  The parts of the path are the operations of NetIf, EthernetBus and Host; this theory says
  how one hands over to the next.
\<close>

section \<open>From the interface to the bus\<close>

text \<open>
  The callable that \<^verbatim>\<open>get_output_callback\<close> returns, as the link output wrapper calls it:
  beside the stack it acts on the bus's executor. \<open>time\<close> is the clock's reading.
\<close>

definition bus_output ::
  "rat \<Rightarrow> nat \<Rightarrow> nat \<Rightarrow> frame \<Rightarrow> ('l netif_state \<times> (bus_action, bus_val, 'r) executor, unit) py" where
  "bus_output time f iface data_to_send =
     (\<lambda>(st, bx). case broadcast time iface data_to_send bx of (r, bx') \<Rightarrow> (r, (st, bx')))"

text \<open>The task that a broadcast queues.\<close>

definition bus_task :: "rat \<Rightarrow> nat \<Rightarrow> frame \<Rightarrow> nat \<Rightarrow> (bus_action, bus_val) task" where
  "bus_task time i d f = new_task time 0 0 Broadcast [Netif_obj i, Frame d] [] f"

definition bus_ready :: "rat \<Rightarrow> (bus_action, bus_val, 'r) executor \<Rightarrow> bool" where
  "bus_ready time x \<longleftrightarrow> \<not> locked x \<and> status x = Running \<and> queue_ok (tasks x) \<and>
     (\<forall>u \<in> set (get_tasks (tasks x)). task_key u \<noteq> Task_Key time 0)"

lemma broadcast_queues:
  assumes "bus_ready time x"
  obtains x' where "broadcast time i d x = (Inr (), x')"
    and "mset (get_tasks (tasks x')) = add_mset (bus_task time i d (next_future x)) (mset (get_tasks (tasks x)))"
proof -
  let ?t = "bus_task time i d (next_future x)"
  note ready = assms [unfolded bus_ready_def]
  obtain err q where q: "schedule_task bus_val_lt ?t (tasks x) = (err, q)" by force
  have "task_key ?t = Task_Key time 0" by (simp add: bus_task_def new_task_key)
  then have err: "err = None"
    using schedule_task_raises [of bus_val_lt ?t "tasks x"] q ready by (cases err) auto
  let ?x = "x\<lparr>tasks := q, futures := (futures x)(next_future x := PENDING), next_future := Suc (next_future x)\<rparr>"
  have "broadcast time i d x = (Inr (), ?x)"
    using ready q err
    by (simp add: broadcast_def py_simps schedule_when_running Let_def bus_task_def)
  moreover have "mset (get_tasks (tasks ?x)) = add_mset ?t (mset (get_tasks (tasks x)))"
    using tq.schedule_adds [of bus_val_lt ?t "tasks x"] q by simp
  ultimately show thesis by (rule that)
qed

lemma run_bus_task_eq: "run_bus_task b (bus_task time i d f) = broadcast_now b i d"
  by (simp add: run_bus_task_def bus_task_def new_task_def)

section \<open>From the bus to the other hosts\<close>

lemma inbox_task:
  assumes "d \<in># inbox s k" and "d \<noteq> []"
  obtains u where "u \<in># queued_tasks (hosts s (owner s k))" and "action u = Input_data k" and "args u = [Frame_val d]"
proof -
  from assms(1) obtain u where u: "u \<in># queued_tasks (hosts s (owner s k))" "action u = Input_data k" "frame_of u = d"
    by (auto simp: inbox_def)
  with assms(2) have "args u = [Frame_val d]"
    by (auto simp: frame_of_def split: list.splits host_val.splits)
  with u show thesis by (intro that)
qed

lemma run_input_task:
  assumes "action u = Input_data k" and "args u = [Frame_val d]" and "stack_lwip st = Some lwip"
    and "netif_objs st k = Some n"
    and "run_host_task other user u (st, ob) = (r, (st', ob'))"
  obtains m' n' where "input_data lwip other (PyByteArray d) (stack_mem st, n) = (r, (m', n'))" and "stack_mem st' = m'"
  using assms
  by (auto simp: run_host_task_def py_simps get_lwip_def on_netif_def split: prod.splits)

end
