(* ===== verification/ExecutorOrder.thy ===== *)
theory ExecutorOrder imports SchedulerProperties begin

text \<open>
  The order in which the executor begins its tasks. A negative delay asks for a time that is
  over; along the runs in which no client does so, tasks begin in the order of their times.
\<close>

section \<open>Runs without tasks for the past\<close>

definition no_past :: "('a, 'v, 'r) sys \<Rightarrow> ('a, 'v, 'r) sys \<Rightarrow> bool" where
  "no_past s s' \<longleftrightarrow>
     (\<forall>u \<in> set (get_tasks (tasks (ex s'))). u \<in> set (get_tasks (tasks (ex s))) \<or> now s \<le> abs_time u)"

inductive timely :: "('v \<Rightarrow> 'v \<Rightarrow> bool res) \<Rightarrow> ('a, 'v, 'r) sys \<Rightarrow> bool"
  for olt :: "'v \<Rightarrow> 'v \<Rightarrow> bool res" where
  timely_init: "timely olt (init_sys t0)"
| timely_step: "timely olt s \<Longrightarrow> sched_step olt s l s' \<Longrightarrow> no_past s s' \<Longrightarrow> timely olt s'"

lemma timely_reachable: "timely olt s \<Longrightarrow> reachable olt s"
  by (induction rule: timely.induct) (blast intro: reachable_init reachable_step)+

section \<open>The invariant\<close>

text \<open>
  The times of the tasks that have begun or that the worker holds are sorted and over, and
  no queued task is earlier.
\<close>

definition taken_times :: "('a, 'v) worker \<Rightarrow> (('a, 'v) task \<times> rat) list \<Rightarrow> rat list" where
  "taken_times w b = map (\<lambda>(t, _). abs_time t) b @ map abs_time (unbegun_tasks w)"

definition order_inv ::
  "('a, 'v, 'r) executor \<Rightarrow> ('a, 'v) worker \<Rightarrow> rat \<Rightarrow> (('a, 'v) task \<times> rat) list \<Rightarrow> bool" where
  "order_inv x w n b \<longleftrightarrow> sorted (taken_times w b) \<and> (\<forall>k \<in> set (taken_times w b). k \<le> n) \<and>
     (\<forall>k \<in> set (taken_times w b). \<forall>u \<in> set (get_tasks (tasks x)). k \<le> abs_time u)"

lemma taken_notify [simp]: "taken_times (notify w) b = taken_times w b"
  by (simp add: taken_times_def)

lemma order_notify [simp]: "order_inv x (notify w) n b = order_inv x w n b"
  by (simp add: order_inv_def)

lemma order_same:
  assumes "order_inv x w n b" and "taken_times w' b' = taken_times w b" and "n \<le> n'" and "tasks x' = tasks x"
  shows "order_inv x' w' n' b'"
  using assms by (auto simp: order_inv_def intro: order_trans)

lemma order_schedule:
  assumes inv: "order_inv x w n b"
    and new: "\<forall>u \<in> set (get_tasks (tasks x')). u \<in> set (get_tasks (tasks x)) \<or> n \<le> abs_time u"
  shows "order_inv x' w n b"
  using assms unfolding order_inv_def by (meson order_trans)

lemma begin_keeps_tasks: "begin_task t x = (r, x') \<Longrightarrow> tasks x' = tasks x"
  by (auto simp: begin_task_def Let_def split: prod.splits sum.splits)

lemma finish_keeps_tasks: "finish_task t out x = (r, x') \<Longrightarrow> tasks x' = tasks x"
  by (auto simp: finish_task_def set_future_def Let_def split: outcome.splits prod.splits)

lemma wait_turn_keeps_tasks: "wait_turn n x = (r, x') \<Longrightarrow> tasks x' = tasks x"
  by (auto simp: wait_turn_def Let_def split: if_splits option.splits)

lemma pop_shrinks:
  assumes "queue_ok (tasks x)" and "pop_expired olt t x = (r, y)"
  shows "set (get_tasks (tasks y)) \<subseteq> set (get_tasks (tasks x))"
proof -
  obtain q where q: "pop_tasks_till_timestamp olt t (tasks x) = (r, q)" "tasks y = q"
    using assms(2) by (auto simp: pop_expired_def split: prod.splits)
  show ?thesis
  proof (cases r)
    case (Inl e)
    with tq.pop_raises_keeps [OF assms(1)] q show ?thesis
      by (metis mset_subset_eqD set_mset_mset subsetI)
  next
    case (Inr due)
    with tq.pop_set [OF assms(1)] q show ?thesis by auto
  qed
qed

lemma sorted_keys_times: "sorted (map task_key ts) \<Longrightarrow> sorted (map abs_time ts)"
  by (auto simp: sorted_wrt_map task_key_def less_eq_task_key_def elim!: sorted_wrt_mono_rel [rotated])

lemma order_pop:
  assumes inv: "order_inv x Checking n b" and ok: "queue_ok (tasks x)" and le: "n \<le> t"
    and pop: "pop_expired olt t x = (Inr due, y)"
  shows "order_inv y (Batch due) t b"
proof -
  obtain q where q: "pop_tasks_till_timestamp olt t (tasks x) = (Inr due, q)" "y = x\<lparr>tasks := q\<rparr>"
    using pop by (auto simp: pop_expired_def split: prod.splits)
  have set: "set (get_tasks (tasks x)) = set due \<union> set (get_tasks q)" using tq.pop_set [OF ok q(1)] .
  have "sorted (map task_key due)" using tq.pop_sorted [OF ok q(1)] .
  then have srt: "sorted (map abs_time due)" by (rule sorted_keys_times)
  have due: "\<forall>u \<in> set due. abs_time u \<le> t" using tq.pop_due [OF ok q(1)] by (simp add: task_key_def)
  have rest: "\<forall>u \<in> set (get_tasks q). t < abs_time u" using tq.pop_rest [OF ok q(1)] by (simp add: task_key_def)
  have old: "sorted (map (\<lambda>(t, _). abs_time t) b)" "\<forall>k \<in> set (map (\<lambda>(t, _). abs_time t) b). k \<le> n"
    "\<forall>k \<in> set (map (\<lambda>(t, _). abs_time t) b). \<forall>u \<in> set (get_tasks (tasks x)). k \<le> abs_time u"
    using inv by (simp_all add: order_inv_def taken_times_def)
  show ?thesis
    unfolding order_inv_def taken_times_def q(2)
    using srt due rest old le set by (fastforce simp: sorted_append)
qed

lemma no_past_same: "tasks (ex s') = tasks (ex s) \<Longrightarrow> no_past s s'"
  by (simp add: no_past_def)

lemma order_step:
  assumes "sched_step olt s l s'" and "no_past s s'" and "sys_inv s"
    and "order_inv (ex s) (worker s) (now s) (begun s)"
  shows "order_inv (ex s') (worker s') (now s') (begun s')"
  using assms
proof (induction rule: sched_step.induct)
  case (check_due s x t due y)
  then have "order_inv x Checking (now s) (begun s)"
    using wait_turn_keeps_tasks [OF check_due(2)] by (auto intro: order_same)
  moreover have "queue_ok (tasks x)"
    using check_due wait_turn_keeps_tasks [OF check_due(2)] by (simp add: sys_inv_def core_inv_def crashed_def)
  ultimately show ?case using order_pop check_due by (simp add: order_inv_def)
next
  case (check_crash s x t e y)
  then have "queue_ok (tasks x)"
    using wait_turn_keeps_tasks [OF check_crash(2)] by (simp add: sys_inv_def core_inv_def crashed_def)
  with check_crash pop_shrinks [OF this check_crash(4)] wait_turn_keeps_tasks [OF check_crash(2)] show ?case
    by (fastforce simp: order_inv_def taken_times_def)
next
  case (schedule s delay prio act arguments kws r x)
  then show ?case
    using order_schedule [of "ex s" "worker s" "now s" "begun s" x] by (auto simp: no_past_def split: sum.split)
next
  case (begin_crash s t ts e x)
  then show ?case using begin_keeps_tasks [OF begin_crash(2)] by (auto simp: order_inv_def taken_times_def sorted_append)
next
  case (begin_action s t ts x)
  then show ?case using begin_keeps_tasks [OF begin_action(2)] by (auto intro: order_same simp: taken_times_def)
next
  case (skip_task s t ts x)
  then show ?case using begin_keeps_tasks [OF skip_task(2)] by (auto simp: order_inv_def taken_times_def sorted_append)
next
  case (end_action s t ts out r x)
  then show ?case using finish_keeps_tasks [OF end_action(2)] by (auto intro: order_same simp: taken_times_def)
next
  case (stop_call sync s r x)
  then have "tasks x = tasks (ex s)" by (auto simp: stop_eq sys_inv_def core_inv_def)
  with stop_call show ?case by (auto intro: order_same)
next
  case (cancel_call f s b x)
  then have "tasks x = tasks (ex s)" by (auto simp: cancel_future_def split: prod.splits)
  with cancel_call show ?case by (auto intro: order_same)
next
  case (end_crash s t e ts)
  then show ?case by (auto simp: order_inv_def taken_times_def sorted_append)
qed (auto elim!: order_same dest: wait_turn_keeps_tasks simp: taken_times_def run_prologue_def)

lemma timely_order: "timely olt s \<Longrightarrow> order_inv (ex s) (worker s) (now s) (begun s)"
proof (induction rule: timely.induct)
  case (timely_init t0)
  show ?case by (simp add: order_inv_def taken_times_def init_sys_def)
next
  case (timely_step s l s')
  then show ?case using order_step reachable_inv timely_reachable by blast
qed

section \<open>Commands without negative delays\<close>

fun timely_command :: "('a, 'v, 'r) command \<Rightarrow> bool" where
  "timely_command (DoSchedule delay prio act arguments kws) = (0 \<le> delay)"
| "timely_command c = True"

lemma no_past_subset: "set (get_tasks (tasks (ex s'))) \<subseteq> set (get_tasks (tasks (ex s))) \<Longrightarrow> no_past s s'"
  by (auto simp: no_past_def)

lemma step_adds_no_task:
  assumes "sched_step olt s l s'" and "sys_inv s" and "l \<noteq> Schedule"
  shows "set (get_tasks (tasks (ex s'))) \<subseteq> set (get_tasks (tasks (ex s)))"
  using assms
proof (induction rule: sched_step.induct)
  case (check_due s x t due y)
  then have "tasks x = tasks (ex s)" "queue_ok (tasks (ex s))"
    using wait_turn_keeps_tasks [OF check_due(2)] by (simp_all add: sys_inv_def core_inv_def crashed_def)
  with pop_shrinks [OF _ check_due(4)] show ?case by simp
next
  case (check_crash s x t e y)
  then have "tasks x = tasks (ex s)" "queue_ok (tasks (ex s))"
    using wait_turn_keeps_tasks [OF check_crash(2)] by (simp_all add: sys_inv_def core_inv_def crashed_def)
  with pop_shrinks [OF _ check_crash(4)] show ?case by simp
next
  case (stop_call sync s r x)
  then show ?case by (auto simp: stop_eq sys_inv_def core_inv_def)
next
  case (cancel_call f s b x)
  then show ?case by (auto simp: cancel_future_def split: prod.splits)
qed (auto dest: wait_turn_keeps_tasks begin_keeps_tasks finish_keeps_tasks simp: run_prologue_def)

lemma schedule_no_past:
  assumes "schedule_delayed olt (now s) delay prio act arguments kws (ex s) = (r, x)" and "sys_inv s" and "0 \<le> delay"
  shows "no_past s (s\<lparr>ex := x, worker := w\<rparr>)"
proof (cases "status (ex s) = Running")
  case True
  have l: "\<not> locked (ex s)" using assms(2) by (simp add: sys_inv_def core_inv_def)
  let ?t = "new_task (now s) delay prio act arguments kws (next_future (ex s))"
  have "tasks x = snd (schedule_task olt ?t (tasks (ex s)))"
    using assms(1) schedule_when_running [OF l True] by (auto simp: Let_def split: prod.splits)
  then have "set (get_tasks (tasks x)) = insert ?t (set (get_tasks (tasks (ex s))))"
    by (simp add: tq.schedule_set)
  then show ?thesis using assms(3) by (auto simp: no_past_def)
next
  case False
  with assms schedule_when_stopped [of "ex s"] show ?thesis
    by (auto simp: no_past_def sys_inv_def core_inv_def)
qed

lemma schedule_label:
  "exec_command olt c s = Some (Schedule, s') \<Longrightarrow> \<exists>delay prio act arguments kws. c = DoSchedule delay prio act arguments kws"
  by (cases c) (auto simp: exec_check_def exec_batch_def
      split: if_splits worker.splits prod.splits sum.splits option.splits wait_outcome.splits bool.splits list.splits)

lemma timely_exec:
  assumes "exec_command olt c s = Some (l, s')" and "timely olt s" and "timely_command c"
  shows "timely olt s'"
proof -
  have inv: "sys_inv s" using reachable_inv timely_reachable assms(2) by blast
  have "no_past s s'"
  proof (cases "l = Schedule")
    case True
    with assms(1) obtain delay prio act arguments kws where "c = DoSchedule delay prio act arguments kws"
      using schedule_label by blast
    with assms(1,3) inv schedule_no_past [of olt s delay prio act arguments kws] show ?thesis
      by (auto split: prod.splits)
  next
    case False
    with step_adds_no_task [OF exec_command_sound [OF assms(1)] inv] show ?thesis by (blast intro: no_past_subset)
  qed
  then show ?thesis using timely_step assms(2) exec_command_sound [OF assms(1)] by blast
qed

lemma timely_exec_run: "exec_run olt cs s = Some (ls, s') \<Longrightarrow> timely olt s \<Longrightarrow> list_all timely_command cs \<Longrightarrow> timely olt s'"
proof (induction cs arbitrary: s ls)
  case (Cons c cs)
  then obtain l s1 ls' where "exec_command olt c s = Some (l, s1)" "exec_run olt cs s1 = Some (ls', s')"
    by (auto split: option.splits)
  with Cons timely_exec show ?case by fastforce
qed simp

section \<open>Property\<close>

text \<open>
  C9: in every run in which no task is scheduled for a time that is over, whatever the threads
  interleave and the actions do: actions begin in the order of their tasks' times, over all
  batches, and no task that still waits in the queue is earlier than one that has begun. With
  a negative delay a task can begin after a later one.
\<close>

theorem executor_begins_in_order:
  assumes "timely olt s"
  shows "sorted (map (\<lambda>(t, _). abs_time t) (begun s)) \<and>
    (\<forall>(t, _) \<in> set (begun s). \<forall>u \<in> set (get_tasks (tasks (ex s))). abs_time t \<le> abs_time u)"
  using timely_order [OF assms] by (auto simp: order_inv_def taken_times_def sorted_append)


text \<open>Two tasks in one batch, and one that an action schedules while they run.\<close>

lemma timely_run:
  "can_run (init_sys 0) cs ls \<Longrightarrow> list_all timely_command cs \<Longrightarrow> timely unordered (run_from (init_sys 0) cs)"
  by (auto simp: can_run_def run_from_def intro: timely_exec_run timely_init)

definition two_batches :: "(nat, nat, nat) command list" where
  "two_batches = [DoStart, DoEnter, DoSchedule 2 0 7 [] [], DoSchedule 1 5 8 [] [], DoTick 3, DoCheck 3, DoBatch,
     DoSchedule 0 0 9 [] [], DoEnd (Returns 0), DoCount, DoBatch, DoEnd (Raises (AppError 1)), DoCount, DoBatch,
     DoTick 4, DoCheck 4, DoBatch]"

theorem executor_begins_in_order_witness:
  "let s = run_from (init_sys 0) two_batches in
   map (\<lambda>(t, n). (action t, n)) (begun s) = [(8, 3), (7, 3), (9, 4)] \<and> sorted (map (\<lambda>(t, _). abs_time t) (begun s))"
proof -
  have "can_run (init_sys 0) two_batches [StartThread, EnterRun, Schedule, Schedule, Tick, CheckDue, BeginTask, Schedule,
      EndTask, CountDown, BeginTask, EndTask, CountDown, BatchEnd, Tick, CheckDue, BeginTask]" by code_simp
  moreover have "list_all timely_command two_batches" by code_simp
  ultimately have "timely unordered (run_from (init_sys 0) two_batches)" by (rule timely_run)
  moreover have "map (\<lambda>(t, n). (action t, n)) (begun (run_from (init_sys 0) two_batches)) = [(8, 3), (7, 3), (9, 4)]"
    by code_simp
  ultimately show ?thesis using executor_begins_in_order by metis
qed

text \<open>An action of the time 2 schedules one of the time 1.\<close>

lemma past_task_begins_late:
  "let s = run_from (init_sys 0) [DoStart, DoEnter, DoSchedule 2 0 7 [] [], DoTick 3, DoCheck 3, DoBatch,
     DoSchedule (-2) 0 8 [] [], DoEnd (Returns 0), DoCount, DoBatch, DoCheck 3, DoBatch] in
   map (\<lambda>(t, _). abs_time t) (begun s) = [2, 1]"
  by code_simp

end
