(* ===== verification/ThreadActions.thy ===== *)
theory ThreadActions imports ExecutorOrder ExecutorProgress begin

text \<open>
  An executor's thread together with the code it runs. In the theory ExecutorSteps the outcome of an
  action is open; here an action is a function on the world \<open>'w\<close> that the program's other
  objects make up, and what it returns or raises is what its future gets. Clients schedule
  the calls of a given set; the world may change by itself, as other threads work on it.
\<close>

section \<open>The machine\<close>

record ('a, 'v, 'w) machine =
  thread :: "('a, 'v, unit) sys"
  world :: 'w
  accepted :: "('a, 'v) task list"  \<comment> \<open>history: the tasks made by \<^verbatim>\<open>schedule_delayed\<close>, in order\<close>
  executed :: "(('a, 'v) task \<times> unit res) list"  \<comment> \<open>history: the actions that ended, and how\<close>

definition outcome_of :: "unit res \<Rightarrow> unit outcome" where
  "outcome_of r = (case r of Inl e \<Rightarrow> Raises e | Inr v \<Rightarrow> Returns v)"

text \<open>A call of \<^verbatim>\<open>schedule_delayed\<close>: delay, priority, action and arguments.\<close>

type_synonym ('a, 'v) call = "rat \<times> int \<times> 'a \<times> 'v list"

definition made_tasks :: "('a, 'v) call \<Rightarrow> ('a, 'v, unit) sys \<Rightarrow> ('a, 'v) task list" where
  "made_tasks = (\<lambda>(delay, prio, act, arguments) s.
     if status (ex s) = Running then [new_task (now s) delay prio act arguments [] (next_future (ex s))] else [])"

text \<open>
  The steps: of the thread and its stop, of a client that schedules one of the \<open>calls\<close>, the end of an
  action, and a change of the world by others (no label). No client cancels a future.
\<close>

inductive machine_step ::
  "('v \<Rightarrow> 'v \<Rightarrow> bool res) \<Rightarrow> ('a, 'v) call set \<Rightarrow> (('a, 'v) task \<Rightarrow> ('w, unit) py) \<Rightarrow>
   ('a, 'v, 'w) machine \<Rightarrow> label option \<Rightarrow> ('a, 'v, 'w) machine \<Rightarrow> bool"
  for olt :: "'v \<Rightarrow> 'v \<Rightarrow> bool res" and calls :: "('a, 'v) call set" and run :: "('a, 'v) task \<Rightarrow> ('w, unit) py" where
  thread_moves: "sched_step olt (thread m) l th \<Longrightarrow> l \<noteq> EndTask \<Longrightarrow> l \<noteq> Schedule \<Longrightarrow> l \<noteq> Cancel \<Longrightarrow>
    machine_step olt calls run m (Some l) (m\<lparr>thread := th\<rparr>)"
| client_calls: "(delay, prio, act, arguments) \<in> calls \<Longrightarrow>
    schedule_delayed olt (now (thread m)) delay prio act arguments [] (ex (thread m)) = (r, x) \<Longrightarrow>
    th = (thread m)\<lparr>ex := x, worker := (case r of Inl e \<Rightarrow> worker (thread m) | Inr f \<Rightarrow> notify (worker (thread m)))\<rparr> \<Longrightarrow>
    machine_step olt calls run m (Some Schedule)
      (m\<lparr>thread := th, accepted := accepted m @ made_tasks (delay, prio, act, arguments) (thread m)\<rparr>)"
| action_ends: "worker (thread m) = Executing t ts \<Longrightarrow> run t (world m) = (r, w) \<Longrightarrow>
    finish_task t (outcome_of r) (ex (thread m)) = (q, x) \<Longrightarrow>
    th = (thread m)\<lparr>ex := x, worker := Ending t (case q of Inl e \<Rightarrow> Some e | Inr _ \<Rightarrow> None) ts\<rparr> \<Longrightarrow>
    machine_step olt calls run m (Some EndTask)
      (m\<lparr>thread := th, world := w, executed := executed m @ [(t, r)]\<rparr>)"
| world_moves: "machine_step olt calls run m None (m\<lparr>world := w\<rparr>)"

inductive machine_steps ::
  "('v \<Rightarrow> 'v \<Rightarrow> bool res) \<Rightarrow> ('a, 'v) call set \<Rightarrow> (('a, 'v) task \<Rightarrow> ('w, unit) py) \<Rightarrow>
   ('a, 'v, 'w) machine \<Rightarrow> label option list \<Rightarrow> ('a, 'v, 'w) machine \<Rightarrow> bool"
  for olt :: "'v \<Rightarrow> 'v \<Rightarrow> bool res" and calls :: "('a, 'v) call set" and run :: "('a, 'v) task \<Rightarrow> ('w, unit) py" where
  machine_Nil: "machine_steps olt calls run m [] m"
| machine_snoc: "machine_steps olt calls run m ls m' \<Longrightarrow> machine_step olt calls run m' l m'' \<Longrightarrow>
    machine_steps olt calls run m (ls @ [l]) m''"

definition init_machine :: "rat \<Rightarrow> 'w \<Rightarrow> ('a, 'v, 'w) machine" where
  "init_machine t0 w = \<lparr>thread = init_sys t0, world = w, accepted = [], executed = []\<rparr>"

definition machine_reachable ::
  "('v \<Rightarrow> 'v \<Rightarrow> bool res) \<Rightarrow> ('a, 'v) call set \<Rightarrow> (('a, 'v) task \<Rightarrow> ('w, unit) py) \<Rightarrow> ('a, 'v, 'w) machine \<Rightarrow> bool" where
  "machine_reachable olt calls run m \<longleftrightarrow> (\<exists>t0 w ls. machine_steps olt calls run (init_machine t0 w) ls m)"

section \<open>The machine is an executor\<close>

lemma machine_step_projects:
  assumes "machine_step olt calls run m l m'"
  shows "case l of None \<Rightarrow> thread m' = thread m | Some k \<Rightarrow> sched_step olt (thread m) k (thread m')"
  using assms by (induction rule: machine_step.induct) (auto intro: sched_step.intros)

lemma machine_steps_project:
  "machine_steps olt calls run m ls m' \<Longrightarrow> sched_steps olt (thread m) (List.map_filter id ls) (thread m')"
proof (induction rule: machine_steps.induct)
  case (machine_Nil m)
  show ?case by (simp add: map_filter_simps steps_Nil)
next
  case (machine_snoc m ls m' l m'')
  from machine_step_projects [OF machine_snoc(2)] machine_snoc(3) show ?case
    by (cases l) (auto simp: List.map_filter_def intro: steps_snoc)
qed

lemma machine_reachable_thread: "machine_reachable olt calls run m \<Longrightarrow> reachable olt (thread m)"
  unfolding machine_reachable_def reachable_def using machine_steps_project by (fastforce simp: init_machine_def)

lemma machine_reachable_step:
  "machine_reachable olt calls run m \<Longrightarrow> machine_step olt calls run m l m' \<Longrightarrow> machine_reachable olt calls run m'"
  unfolding machine_reachable_def by (blast intro: machine_snoc)

lemma machine_reachable_steps:
  "machine_steps olt calls run m ls m' \<Longrightarrow> machine_reachable olt calls run m \<Longrightarrow> machine_reachable olt calls run m'"
  by (induction rule: machine_steps.induct) (blast intro: machine_reachable_step)+

lemma machine_reachable_induct [consumes 1, case_names init step]:
  assumes "machine_reachable olt calls run m"
    and "\<And>t0 w. P (init_machine t0 w)"
    and "\<And>m l m'. machine_reachable olt calls run m \<Longrightarrow> P m \<Longrightarrow> machine_step olt calls run m l m' \<Longrightarrow> P m'"
  shows "P m"
proof -
  from assms(1) obtain t0 w ls where "machine_steps olt calls run (init_machine t0 w) ls m"
    by (auto simp: machine_reachable_def)
  then have "machine_reachable olt calls run m \<and> P m"
  proof (induction "init_machine t0 w :: ('b, 'a, 'c) machine" ls m rule: machine_steps.induct)
    case machine_Nil
    show ?case using assms(2) unfolding machine_reachable_def by (blast intro: machine_steps.machine_Nil)
  next
    case (machine_snoc ls m' l m'')
    then show ?case using machine_reachable_step assms(3) by blast
  qed
  then show ?thesis ..
qed


section \<open>What has been executed\<close>

lemma wait_turn_keeps_futures: "wait_turn n x = (r, x') \<Longrightarrow> futures x' = futures x"
  by (rule wait_turn_effect(2))

text \<open>No future of the machine is ever cancelled.\<close>

definition no_cancel :: "('a, 'v, 'r) sys \<Rightarrow> bool" where
  "no_cancel s \<longleftrightarrow> (\<forall>f. futures (ex s) f \<noteq> CANCELLED)"

lemma no_cancel_schedule:
  assumes "schedule_delayed olt time delay prio act arguments kws x = (r, x')" and "\<not> locked x"
    and "\<forall>f. futures x f \<noteq> CANCELLED"
  shows "\<forall>f. futures x' f \<noteq> CANCELLED"
  using schedule_effect [OF assms(2,1)] assms(3) by (auto split: if_splits)

lemma no_cancel_step:
  assumes "sched_step olt s l s'" and "sys_inv s" and "l \<noteq> Cancel" and "no_cancel s"
  shows "no_cancel s'"
  using assms
proof (induction rule: sched_step.induct)
  case (skip_task s t ts x)
  from begin_task_cases [OF skip_task(2)] skip_task show ?case by (auto simp: no_cancel_def)
next
  case (begin_action s t ts x)
  from begin_task_cases [OF begin_action(2)] begin_action show ?case by (auto simp: no_cancel_def)
next
  case (begin_crash s t ts e x)
  then show ?case by (auto simp: no_cancel_def begin_task_def set_running_or_notify_cancel_def Let_def split: fstate.splits if_splits)
next
  case (end_action s t ts out r x)
  from finish_effect [OF sys_inv_executing [OF end_action(3,1)] end_action(2)] end_action(5) show ?case
    by (auto simp: no_cancel_def started_def split: if_splits)
next
  case (schedule s delay prio act arguments kws r x)
  then show ?case using no_cancel_schedule [OF schedule(1) sys_inv_unlocked] by (simp add: no_cancel_def)
next
  case (stop_call sync s r x)
  then show ?case by (auto simp: stop_eq sys_inv_unlocked no_cancel_def)
next
  case (check_due s x t due y)
  then show ?case
    by (auto simp: no_cancel_def pop_expired_def wait_turn_keeps_futures [OF check_due(2)] split: prod.splits)
next
  case (check_crash s x t e y)
  then show ?case
    by (auto simp: no_cancel_def pop_expired_def wait_turn_keeps_futures [OF check_crash(2)] split: prod.splits)
qed (auto simp: no_cancel_def run_prologue_def dest: wait_turn_keeps_futures)

lemma machine_no_cancel: "machine_reachable olt calls run m \<Longrightarrow> no_cancel (thread m)"
proof (induction rule: machine_reachable_induct)
  case (init t0 w)
  show ?case by (simp add: no_cancel_def init_machine_def init_sys_def new_executor_def)
next
  case (step m l m')
  have inv: "sys_inv (thread m)" using reachable_inv machine_reachable_thread [OF step(1)] .
  have "l \<noteq> Some Cancel" using step(2) by (auto elim: machine_step.cases)
  then show ?case
    using machine_step_projects [OF step(2)] no_cancel_step [OF _ inv _ step(3)] step(3)
    by (cases l) auto
qed

text \<open>The actions that have begun are those that ended and the one that runs.\<close>

fun executing :: "('a, 'v) worker \<Rightarrow> ('a, 'v) task list" where
  "executing (Executing t ts) = [t]"
| "executing w = []"

lemma executing_notify [simp]: "executing (notify w) = executing w"
  by (cases w) simp_all

lemma begun_step:
  assumes "sched_step olt s l s'"
  shows "(if l = BeginTask then \<exists>t ts. worker s = Batch (t # ts) \<and> worker s' = Executing t ts \<and> begun s' = begun s @ [(t, now s)]
     else begun s' = begun s \<and> (l \<noteq> EndTask \<longrightarrow> executing (worker s') = executing (worker s)))"
  using assms by (induction rule: sched_step.induct) (auto split: sum.split)

lemma machine_begun:
  "machine_reachable olt calls run m \<Longrightarrow>
   map fst (begun (thread m)) = map fst (executed m) @ executing (worker (thread m))"
proof (induction rule: machine_reachable_induct)
  case (init t0 w)
  show ?case by (simp add: init_machine_def init_sys_def)
next
  case (step m l m')
  from step(2) show ?case
  proof (cases rule: machine_step.cases)
    case (thread_moves k th)
    with begun_step [OF thread_moves(3)] step(3) show ?thesis by (auto split: if_splits)
  qed (use step(3) in \<open>auto split: sum.split\<close>)
qed


section \<open>A first-in first-out channel\<close>

text \<open>
  When every call asks for no delay and no two of the accepted tasks have the same time, the
  accepted tasks are, in this order, those that have begun, those the worker holds and
  those in the queue.
\<close>

definition undelayed :: "('a, 'v) call set \<Rightarrow> bool" where
  "undelayed calls \<longleftrightarrow> (\<forall>(delay, _) \<in> calls. delay = 0)"

definition fifo_inv :: "('a, 'v) task list \<Rightarrow> ('a, 'v, 'r) sys \<Rightarrow> bool" where
  "fifo_inv acc s \<longleftrightarrow>
     sorted (map abs_time acc) \<and> (\<forall>t \<in> set acc. abs_time t \<le> now s) \<and>
     (\<exists>rest. acc = map fst (begun s) @ unbegun_tasks (worker s) @ rest \<and>
        (crashed (worker s) \<or> mset rest = mset (get_tasks (tasks (ex s)))))"

lemma pop_takes_front:
  assumes pop: "pop_expired olt t x = (Inr due, y)" and ok: "queue_ok (tasks x)"
    and rest: "mset rest = mset (get_tasks (tasks x))" and srt: "sorted (map abs_time rest)"
    and dist: "distinct (map abs_time rest)"
  shows "\<exists>rest'. rest = due @ rest' \<and> mset rest' = mset (get_tasks (tasks y))"
proof -
  obtain q where q: "pop_tasks_till_timestamp olt t (tasks x) = (Inr due, q)" "tasks y = q"
    using pop by (auto simp: pop_expired_def split: prod.splits)
  let ?qs = "sort_key abs_time (get_tasks q)"
  have ms: "mset (due @ ?qs) = mset rest" using tq.pop_splits [OF ok q(1)] rest by simp
  have "sorted (map abs_time due)"
    using tq.pop_sorted [OF ok q(1)] by (rule sorted_keys_times)
  moreover have "\<forall>u \<in> set due. \<forall>v \<in> set ?qs. abs_time u \<le> abs_time v"
    using tq.pop_due [OF ok q(1)] tq.pop_rest [OF ok q(1)] by (force simp: task_key_def)
  ultimately have "sorted (map abs_time (due @ ?qs))" by (auto simp: sorted_append)
  moreover have "distinct (map abs_time (due @ ?qs))" using distinct_map_mset [OF ms] dist by blast
  moreover have "set (due @ ?qs) = set rest" using ms by (metis set_mset_mset)
  ultimately have "due @ ?qs = rest"
    using map_sorted_distinct_set_unique [of abs_time "due @ ?qs" rest] srt dist
    by (metis distinct_map Un_absorb)
  then show ?thesis using q(2) by (metis mset_sort)
qed

lemma fifo_same:
  assumes "fifo_inv acc s" and "begun s' = begun s" and "unbegun_tasks (worker s') = unbegun_tasks (worker s)"
    and "crashed (worker s') = crashed (worker s)" and "tasks (ex s') = tasks (ex s)" and "now s \<le> now s'"
  shows "fifo_inv acc s'"
  using assms by (fastforce simp: fifo_inv_def)

lemma fifo_crash:
  assumes "fifo_inv acc s" and "begun s' = begun s" and "crashed (worker s')" and "unbegun_tasks (worker s') = []"
    and "now s \<le> now s'"
  shows "fifo_inv acc s'"
  using assms by (fastforce simp: fifo_inv_def)

lemma waiting_pending:
  assumes "sys_inv s" and "no_cancel s" and "worker s = Batch (t # ts)"
  shows "futures (ex s) (future t) = PENDING"
proof -
  have "waiting (futures (ex s) (future t))" using assms(1,3) by (simp add: sys_inv_def core_defs)
  moreover have "futures (ex s) (future t) \<noteq> CANCELLED" using assms(2) by (simp add: no_cancel_def)
  ultimately show ?thesis by (simp add: waiting_cases)
qed

lemma fifo_sched_step:
  assumes "sched_step olt s l s'" and "l \<noteq> Schedule" and "sys_inv s" and "no_cancel s"
    and "fifo_inv acc s" and "distinct (map abs_time acc)"
  shows "fifo_inv acc s'"
  using assms
proof (induction rule: sched_step.induct)
  case (check_due s x t due y)
  have x: "x = ex s" using wait_turn_effect(6) [OF check_due(2)] by simp
  have ok: "queue_ok (tasks x)" using check_due(6) by (simp add: x check_due(1) sys_inv_queue_ok crashed_def)
  obtain rest where rest: "acc = map fst (begun s) @ rest" "mset rest = mset (get_tasks (tasks x))"
    using check_due(8) by (auto simp: fifo_inv_def check_due(1) x crashed_def)
  have "sorted (map abs_time rest)" "distinct (map abs_time rest)"
    using check_due(8,9) rest(1) by (auto simp: fifo_inv_def sorted_append)
  from pop_takes_front [OF check_due(4) ok rest(2) this] obtain rest' where
    "rest = due @ rest'" "mset rest' = mset (get_tasks (tasks y))" by blast
  moreover have "sorted (map abs_time acc)" "\<forall>u \<in> set acc. abs_time u \<le> t"
    using check_due(3,8) by (auto simp: fifo_inv_def)
  ultimately show ?case
    using rest(1) unfolding fifo_inv_def by (intro conjI exI [of _ rest']) simp_all
next
  case (check_crash s x t e y)
  then show ?case by (auto elim!: fifo_crash simp: crashed_def)
next
  case (skip_task s t ts x)
  with waiting_pending [OF skip_task(4,5,1)] begin_task_pending show ?case by fastforce
next
  case (begin_crash s t ts e x)
  with waiting_pending [OF begin_crash(4,5,1)] begin_task_pending show ?case by fastforce
next
  case (begin_action s t ts x)
  with begin_keeps_tasks [OF begin_action(2)] show ?case by (auto simp: fifo_inv_def crashed_def)
next
  case (end_action s t ts out r x)
  with finish_keeps_tasks [OF end_action(2)] show ?case by (auto elim!: fifo_same simp: crashed_def)
next
  case (end_crash s t e ts)
  then show ?case by (auto simp: fifo_inv_def crashed_def)
next
  case (stop_call sync s r x)
  then have "tasks x = tasks (ex s)" by (auto simp: stop_eq sys_inv_unlocked)
  with stop_call show ?case by (auto elim!: fifo_same)
next
  case (cancel_call f s b x)
  with cancel_effect [OF cancel_call(2)] show ?case by (auto elim!: fifo_same)
qed (auto elim!: fifo_same dest: wait_turn_keeps_tasks simp: crashed_def run_prologue_def)

lemma fifo_schedule:
  assumes sch: "schedule_delayed olt (now s) 0 prio act arguments [] (ex s) = (r, x)"
    and inv: "sys_inv s" and fifo: "fifo_inv acc s"
    and s': "s' = s\<lparr>ex := x, worker := (case r of Inl e \<Rightarrow> worker s | Inr f \<Rightarrow> notify (worker s))\<rparr>"
  shows "fifo_inv (acc @ made_tasks (0, prio, act, arguments) s) s'"
proof -
  have w: "unbegun_tasks (worker s') = unbegun_tasks (worker s)" "crashed (worker s') = crashed (worker s)"
    by (simp_all add: s' split: sum.split)
  have s'': "begun s' = begun s" "ex s' = x" "now s' = now s" by (simp_all add: s')
  show ?thesis
  proof (cases "status (ex s) = Running")
    case False
    with schedule_effect [OF sys_inv_unlocked [OF inv] sch] have "x = ex s" by simp
    with False fifo w s'' show ?thesis by (auto intro: fifo_same [of acc s] simp: made_tasks_def)
  next
    case True
    let ?t = "new_task (now s) 0 prio act arguments [] (next_future (ex s))"
    have "mset (get_tasks (tasks x)) = add_mset ?t (mset (get_tasks (tasks (ex s))))"
      using schedule_effect [OF sys_inv_unlocked [OF inv] sch] True tq.schedule_adds [of olt ?t "tasks (ex s)"] by auto
    moreover obtain rest where "acc = map fst (begun s) @ unbegun_tasks (worker s) @ rest"
      "crashed (worker s) \<or> mset rest = mset (get_tasks (tasks (ex s)))"
      using fifo by (auto simp: fifo_inv_def)
    moreover have "made_tasks (0, prio, act, arguments) s = [?t]" using True by (simp add: made_tasks_def)
    moreover have "sorted (map abs_time (acc @ [?t]))" "\<forall>t \<in> set (acc @ [?t]). abs_time t \<le> now s"
      using fifo by (auto simp: fifo_inv_def sorted_append)
    ultimately show ?thesis
      unfolding fifo_inv_def w s'' by (intro conjI exI [of _ "rest @ [?t]"]) auto
  qed
qed

lemma machine_fifo:
  assumes "machine_reachable olt calls run m" and "undelayed calls"
  shows "distinct (map abs_time (accepted m)) \<longrightarrow> fifo_inv (accepted m) (thread m)"
  using assms(1)
proof (induction rule: machine_reachable_induct)
  case (init t0 w)
  show ?case by (simp add: fifo_inv_def init_machine_def init_sys_def new_executor_def get_tasks_def new_queue_def)
next
  case (step m l m')
  have inv: "sys_inv (thread m)" using reachable_inv machine_reachable_thread [OF step(1)] .
  have nc: "no_cancel (thread m)" using machine_no_cancel [OF step(1)] .
  from step(2) show ?case
  proof (cases rule: machine_step.cases)
    case (thread_moves k th)
    with step(3) fifo_sched_step [OF thread_moves(3) _ inv nc] show ?thesis by simp
  next
    case (client_calls delay prio act arguments r x th)
    then have "delay = 0" using assms(2) by (auto simp: undelayed_def)
    with client_calls step(3) fifo_schedule [OF _ inv] show ?thesis by simp
  next
    case (action_ends t ts r w q x th)
    with step(3) fifo_sched_step [OF _ _ inv nc] sched_step.end_action [of "thread m" t ts "outcome_of r" q x olt]
    show ?thesis by simp
  next
    case (world_moves w)
    with step(3) show ?thesis by simp
  qed
qed


text \<open>
  The abstract channel: what was accepted and what has been begun. A step accepts tasks
  or begins the next one that was accepted.
\<close>

inductive channel_step :: "'t list \<times> 't list \<Rightarrow> 't list \<times> 't list \<Rightarrow> bool" where
  channel_accept: "channel_step (acc, taken) (acc @ [t], taken)"
| channel_begin: "acc = taken @ t # rest \<Longrightarrow> channel_step (acc, taken) (acc, taken @ [t])"

definition channel :: "('a, 'v, 'w) machine \<Rightarrow> ('a, 'v) task list \<times> ('a, 'v) task list" where
  "channel m = (accepted m, map fst (begun (thread m)))"

lemma accepted_grows: "machine_step olt calls run m l m' \<Longrightarrow> \<exists>ts. accepted m' = accepted m @ ts"
  by (induction rule: machine_step.induct) auto

lemma channel_refined:
  assumes step: "machine_step olt calls run m l m'" and reach: "machine_reachable olt calls run m"
    and calls: "undelayed calls" and dist: "distinct (map abs_time (accepted m'))"
  shows "channel m' = channel m \<or> channel_step (channel m) (channel m')"
  using step
proof (cases rule: machine_step.cases)
  case (thread_moves k th)
  have reach': "machine_reachable olt calls run m'" using machine_reachable_step [OF reach step] .
  have same: "accepted m' = accepted m" using thread_moves(2) by simp
  from begun_step [OF thread_moves(3)] consider "begun th = begun (thread m)"
    | t ts where "worker th = Executing t ts" "begun th = begun (thread m) @ [(t, now (thread m))]"
    by (auto split: if_splits)
  then show ?thesis
  proof cases
    case 1
    then show ?thesis using thread_moves(2) by (simp add: channel_def)
  next
    case 2
    have "fifo_inv (accepted m') (thread m')" using machine_fifo [OF reach' calls] dist by blast
    then obtain rest where "accepted m = map fst (begun (thread m)) @ t # rest"
      using 2 thread_moves(2) by (auto simp: fifo_inv_def)
    with 2 thread_moves(2) show ?thesis by (auto simp: channel_def intro: channel_begin)
  qed
next
  case (client_calls delay prio act arguments r x th)
  then show ?thesis by (auto simp: channel_def made_tasks_def intro: channel_accept)
next
  case (action_ends t ts r w q x th)
  then show ?thesis by (simp add: channel_def)
next
  case (world_moves w)
  then show ?thesis by (simp add: channel_def)
qed

lemma executed_prefix:
  assumes "machine_reachable olt calls run m" and "undelayed calls" and "distinct (map abs_time (accepted m))"
  shows "\<exists>rest. accepted m = map fst (executed m) @ rest"
  using machine_fifo [OF assms(1,2)] assms(3) machine_begun [OF assms(1)] by (auto simp: fifo_inv_def)

section \<open>No exception ends the thread\<close>

lemma fifo_distinct_keys:
  assumes "fifo_inv acc s" and "distinct (map abs_time acc)" and "\<not> crashed (worker s)"
  shows "distinct_keys (tasks (ex s))"
proof -
  obtain rest where rest: "acc = map fst (begun s) @ unbegun_tasks (worker s) @ rest"
    "mset rest = mset (get_tasks (tasks (ex s)))"
    using assms(1,3) by (auto simp: fifo_inv_def)
  have "distinct (map abs_time rest)" using assms(2) rest(1) by simp
  then have "distinct (map task_key rest)" by (auto simp: distinct_map inj_on_def task_key_def)
  then show ?thesis using distinct_map_mset [OF rest(2), of task_key] by (simp add: distinct_keys_def)
qed

definition alive :: "('a, 'v) worker \<Rightarrow> bool" where
  "alive w \<longleftrightarrow> (case w of Crashed e \<Rightarrow> False | Ending t r ts \<Rightarrow> r = None | _ \<Rightarrow> True)"

lemma alive_simps [simp]:
  "alive (Batch ts)" "alive (Executing t ts)" "alive (Ending t r ts) \<longleftrightarrow> r = None" "alive (Sleeping d n)"
  "alive Checking" "alive NotStarted" "alive Starting" "alive Finished" "\<not> alive (Crashed e)"
  by (simp_all add: alive_def)

lemma alive_notify [simp]: "alive (notify w) = alive w"
  by (cases w) simp_all

lemma alive_step:
  assumes "sched_step olt s l s'" and "l \<noteq> EndTask" and "sys_inv s" and "no_cancel s"
    and "distinct_keys (tasks (ex s))" and "alive (worker s)"
  shows "alive (worker s')"
  using assms
proof (induction rule: sched_step.induct)
  case (check_crash s x t e y)
  have x: "x = ex s" using wait_turn_effect(6) [OF check_crash(2)] by simp
  have "queue_ok (tasks (ex s))" using check_crash(1,6) by (simp add: sys_inv_queue_ok crashed_def)
  with check_crash(4,8) pop_raises_tie show ?case by (fastforce simp: x pop_expired_def split: prod.splits)
next
  case (begin_crash s t ts e x)
  with waiting_pending [OF begin_crash(4,5,1)] begin_task_pending show ?case by fastforce
qed (auto split: sum.split)

lemma machine_alive:
  assumes "machine_reachable olt calls run m" and "undelayed calls"
  shows "distinct (map abs_time (accepted m)) \<longrightarrow> alive (worker (thread m))"
  using assms(1)
proof (induction rule: machine_reachable_induct)
  case (init t0 w)
  show ?case by (simp add: alive_def init_machine_def init_sys_def)
next
  case (step m l m')
  have inv: "sys_inv (thread m)" using reachable_inv machine_reachable_thread [OF step(1)] .
  have nc: "no_cancel (thread m)" using machine_no_cancel [OF step(1)] .
  show ?case
  proof
    assume "distinct (map abs_time (accepted m'))"
    then have dist: "distinct (map abs_time (accepted m))" using accepted_grows [OF step(2)] by auto
    with step(3) have al: "alive (worker (thread m))" by simp
    then have "\<not> crashed (worker (thread m))" by (auto simp: alive_def crashed_def split: worker.splits)
    with machine_fifo [OF step(1) assms(2)] dist have keys: "distinct_keys (tasks (ex (thread m)))"
      using fifo_distinct_keys by blast
    from step(2) show "alive (worker (thread m'))"
    proof (cases rule: machine_step.cases)
      case (thread_moves k th)
      with alive_step [OF thread_moves(3,4) inv nc keys al] show ?thesis by simp
    next
      case (client_calls delay prio act arguments r x th)
      with al show ?thesis by (simp split: sum.split)
    next
      case (action_ends t ts r w q x th)
      have "q = Inr ()"
        using finish_task_running [OF sys_inv_executing [OF inv action_ends(3)], of "outcome_of r"] action_ends(5)
        by (auto simp: outcome_of_def split: sum.splits)
      with action_ends show ?thesis by (simp add: alive_def)
    next
      case (world_moves w)
      with al show ?thesis by simp
    qed
  qed
qed

section \<open>A synchronous stop\<close>

lemma stopped_accepts_nothing:
  assumes "machine_step olt calls run m l m'" and "status (ex (thread m)) \<noteq> Running"
  shows "accepted m' = accepted m"
  using assms by (induction rule: machine_step.induct) (auto simp: made_tasks_def)

definition machine_after_stop :: "label option \<Rightarrow> bool" where
  "machine_after_stop l \<longleftrightarrow> (case l of None \<Rightarrow> True | Some k \<Rightarrow> after_stop k)"

lemma machine_after_stop_steps:
  assumes "machine_steps olt calls run m ls m'" and "machine_reachable olt calls run m"
    and "sync_inv (ex (thread m)) (worker (thread m))" and "finished_inv (thread m)" and "\<forall>l \<in> set ls. machine_after_stop l"
  shows "accepted m' = accepted m \<and> sync_inv (ex (thread m')) (worker (thread m')) \<and> finished_inv (thread m')"
  using assms
proof (induction rule: machine_steps.induct)
  case (machine_snoc m ls m' l m'')
  then have ih: "accepted m' = accepted m" "sync_inv (ex (thread m')) (worker (thread m'))" "finished_inv (thread m')"
    by auto
  have reach: "reachable olt (thread m')"
    using machine_reachable_thread machine_reachable_steps [OF machine_snoc(1,4)] by blast
  have acc: "accepted m'' = accepted m'"
    using stopped_accepts_nothing [OF machine_snoc(2)] ih(2) by (simp add: sync_inv_def)
  show ?case
  proof (cases l)
    case None
    with machine_step_projects [OF machine_snoc(2)] ih acc show ?thesis by simp
  next
    case (Some k)
    have "sched_steps olt (thread m') [k] (thread m'')"
      using machine_step_projects [OF machine_snoc(2)] Some sched_steps.steps_snoc [OF sched_steps.steps_Nil] by fastforce
    moreover have "after_stop k" using machine_snoc(7) Some by (simp add: machine_after_stop_def)
    ultimately show ?thesis using after_stop_steps [OF _ reach ih(2,3)] ih(1) acc by auto
  qed
qed simp

lemma machine_after_stop_idle:
  assumes reach: "machine_reachable olt calls run m"
    and idle: "worker (thread m) = Checking \<or> worker (thread m) = Sleeping d n"
    and stopped: "machine_step olt calls run m (Some (Stop True)) m1" and run: "machine_steps olt calls run m1 ls m2"
    and ls: "\<forall>l \<in> set ls. machine_after_stop l"
  shows "accepted m2 = accepted m" and "status (ex (thread m2)) \<noteq> Running"
    and "sync_inv (ex (thread m2)) (worker (thread m2)) \<and> finished_inv (thread m2)"
proof -
  have inv: "sys_inv (thread m)" using reachable_inv machine_reachable_thread [OF reach] .
  have reach1: "machine_reachable olt calls run m1" using machine_reachable_step [OF reach stopped] .
  have st: "sched_step olt (thread m) (Stop True) (thread m1)" using machine_step_projects [OF stopped] by simp
  have acc1: "accepted m1 = accepted m" using stopped by (auto elim: machine_step.cases)
  from sync_stop_starts [OF inv idle st] machine_after_stop_steps [OF run reach1 _ _ ls]
  show "accepted m2 = accepted m" "sync_inv (ex (thread m2)) (worker (thread m2)) \<and> finished_inv (thread m2)"
    by (simp_all add: acc1)
  then show "status (ex (thread m2)) \<noteq> Running" by (simp add: sync_inv_def)
qed

text \<open>
  A thread that is stopped synchronously between two batches ends only when all accepted
  tasks are executed.
\<close>

lemma machine_stop_flushes:
  assumes reach: "machine_reachable olt calls run m" and calls: "undelayed calls"
    and dist: "distinct (map abs_time (accepted m))"
    and idle: "worker (thread m) = Checking \<or> worker (thread m) = Sleeping d n"
    and stopped: "machine_step olt calls run m (Some (Stop True)) m1" and run: "machine_steps olt calls run m1 ls m2"
    and ls: "\<forall>l \<in> set ls. machine_after_stop l" and fin: "worker (thread m2) = Finished"
  shows "accepted m2 = accepted m \<and> map fst (executed m2) = accepted m"
proof -
  have reach2: "machine_reachable olt calls run m2"
    using machine_reachable_steps [OF run machine_reachable_step [OF reach stopped]] .
  note end2 = machine_after_stop_idle [OF reach idle stopped run ls]
  have inv2: "sys_inv (thread m2)" using reachable_inv machine_reachable_thread [OF reach2] .
  have live: "live_tasks (ex (thread m2)) = []" using sync_stop_drains [OF _ _ fin] end2(3) by blast
  have "get_tasks (tasks (ex (thread m2))) = []"
  proof (rule ccontr)
    assume "get_tasks (tasks (ex (thread m2))) \<noteq> []"
    then obtain t where t: "t \<in> set (get_tasks (tasks (ex (thread m2))))" by (cases "get_tasks (tasks (ex (thread m2)))") auto
    then have "waiting (futures (ex (thread m2)) (future t))" using inv2 by (auto simp: sys_inv_def core_defs)
    moreover have "task_cancelled (ex (thread m2)) t" using live t by (auto simp: live_tasks_def filter_empty_conv)
    ultimately show False
      using machine_no_cancel [OF reach2] by (auto simp: waiting_cases no_cancel_def task_cancelled_def cancelled_def)
  qed
  moreover have "fifo_inv (accepted m2) (thread m2)" using machine_fifo [OF reach2 calls] dist end2(1) by simp
  ultimately show ?thesis
    using machine_begun [OF reach2] end2(1) fin by (auto simp: fifo_inv_def crashed_def)
qed


section \<open>Runs as functions\<close>

datatype ('a, 'v, 'w) machine_command =
  Thread_does "('a, 'v, unit) command" | Client_calls "('a, 'v) call" | Action_ends | World_is 'w

fun own_command :: "('a, 'v, 'r) command \<Rightarrow> bool" where
  "own_command (DoEnd out) = False"
| "own_command (DoSchedule delay prio act arguments kws) = False"
| "own_command (DoCancel f) = False"
| "own_command c = True"

fun exec_machine_command ::
  "('v \<Rightarrow> 'v \<Rightarrow> bool res) \<Rightarrow> (('a, 'v) task \<Rightarrow> ('w, unit) py) \<Rightarrow> ('a, 'v, 'w) machine_command \<Rightarrow>
   ('a, 'v, 'w) machine \<Rightarrow> (label option \<times> ('a, 'v, 'w) machine) option" where
  "exec_machine_command olt run (Thread_does c) m =
     (if own_command c then map_option (\<lambda>(l, th). (Some l, m\<lparr>thread := th\<rparr>)) (exec_command olt c (thread m)) else None)"
| "exec_machine_command olt run (Client_calls (delay, prio, act, arguments)) m =
     map_option (\<lambda>(l, th). (Some l, m\<lparr>thread := th, accepted := accepted m @ made_tasks (delay, prio, act, arguments) (thread m)\<rparr>))
       (exec_command olt (DoSchedule delay prio act arguments []) (thread m))"
| "exec_machine_command olt run Action_ends m =
     (case worker (thread m) of
        Executing t ts \<Rightarrow>
          (case run t (world m) of
             (r, w) \<Rightarrow> map_option (\<lambda>(l, th). (Some l, m\<lparr>thread := th, world := w, executed := executed m @ [(t, r)]\<rparr>))
                (exec_command olt (DoEnd (outcome_of r)) (thread m)))
      | _ \<Rightarrow> None)"
| "exec_machine_command olt run (World_is w) m = Some (None, m\<lparr>world := w\<rparr>)"

fun allowed :: "('a, 'v) call set \<Rightarrow> ('a, 'v, 'w) machine_command \<Rightarrow> bool" where
  "allowed calls (Client_calls c) = (c \<in> calls)"
| "allowed calls c = True"

fun exec_machine ::
  "('v \<Rightarrow> 'v \<Rightarrow> bool res) \<Rightarrow> (('a, 'v) task \<Rightarrow> ('w, unit) py) \<Rightarrow> ('a, 'v, 'w) machine_command list \<Rightarrow>
   ('a, 'v, 'w) machine \<Rightarrow> (label option list \<times> ('a, 'v, 'w) machine) option" where
  "exec_machine olt run [] m = Some ([], m)"
| "exec_machine olt run (c # cs) m =
     (case exec_machine_command olt run c m of
        None \<Rightarrow> None
      | Some (l, m') \<Rightarrow> map_option (\<lambda>(ls, m''). (l # ls, m'')) (exec_machine olt run cs m'))"

lemma own_command_label:
  "own_command c \<Longrightarrow> exec_command olt c s = Some (l, s') \<Longrightarrow> l \<noteq> EndTask \<and> l \<noteq> Schedule \<and> l \<noteq> Cancel"
  by (cases c) (auto simp: exec_check_def exec_batch_def
      split: if_splits worker.splits prod.splits sum.splits option.splits wait_outcome.splits bool.splits list.splits)

lemma exec_machine_command_sound:
  "exec_machine_command olt run c m = Some (l, m') \<Longrightarrow> allowed calls c \<Longrightarrow> machine_step olt calls run m l m'"
proof (induction olt run c m rule: exec_machine_command.induct)
  case (1 olt run c m)
  with own_command_label exec_command_sound show ?case by (fastforce intro: thread_moves split: if_splits)
next
  case (2 olt run delay prio act arguments m)
  then show ?case by (auto intro: client_calls split: prod.splits)
next
  case (3 olt run m)
  then show ?case by (auto intro!: action_ends split: worker.splits prod.splits)
next
  case (4 olt run w m)
  then show ?case by (auto intro: world_moves)
qed

lemma machine_steps_Cons:
  "machine_step olt calls run m l m' \<Longrightarrow> machine_steps olt calls run m' ls m'' \<Longrightarrow> machine_steps olt calls run m (l # ls) m''"
proof (rotate_tac, induction m' ls m'' rule: machine_steps.induct)
  case (machine_Nil m')
  then show ?case using machine_steps.machine_snoc [OF machine_steps.machine_Nil] by fastforce
next
  case (machine_snoc m' ls t l' t')
  then show ?case using machine_steps.machine_snoc [of olt calls run m "l # ls"] by simp
qed

lemma exec_machine_sound:
  "exec_machine olt run cs m = Some (ls, m') \<Longrightarrow> list_all (allowed calls) cs \<Longrightarrow> machine_steps olt calls run m ls m'"
proof (induction cs arbitrary: m ls)
  case (Cons c cs)
  then obtain l m1 ls' where "exec_machine_command olt run c m = Some (l, m1)"
    "exec_machine olt run cs m1 = Some (ls', m')" "ls = l # ls'"
    by (auto split: option.splits)
  with Cons exec_machine_command_sound [of olt run c m l m1 calls] show ?case
    by (auto intro: machine_steps_Cons)
qed (simp add: machine_Nil)


text \<open>Where a list of commands leads; lists that cannot be run have no such state.\<close>

definition machine_from ::
  "('v \<Rightarrow> 'v \<Rightarrow> bool res) \<Rightarrow> (('a, 'v) task \<Rightarrow> ('w, unit) py) \<Rightarrow> ('a, 'v, 'w) machine \<Rightarrow>
   ('a, 'v, 'w) machine_command list \<Rightarrow> ('a, 'v, 'w) machine" where
  "machine_from olt run m cs = snd (the (exec_machine olt run cs m))"

definition machine_can_run ::
  "('v \<Rightarrow> 'v \<Rightarrow> bool res) \<Rightarrow> (('a, 'v) task \<Rightarrow> ('w, unit) py) \<Rightarrow> ('a, 'v, 'w) machine \<Rightarrow>
   ('a, 'v, 'w) machine_command list \<Rightarrow> label option list \<Rightarrow> bool" where
  "machine_can_run olt run m cs ls \<longleftrightarrow> map_option fst (exec_machine olt run cs m) = Some ls"

lemma machine_from_steps:
  "machine_can_run olt run m cs ls \<Longrightarrow> list_all (allowed calls) cs \<Longrightarrow>
   machine_steps olt calls run m ls (machine_from olt run m cs)"
  by (auto simp: machine_can_run_def machine_from_def intro: exec_machine_sound)

lemma machine_from_step:
  "machine_can_run olt run m [c] [l] \<Longrightarrow> allowed calls c \<Longrightarrow> machine_step olt calls run m l (machine_from olt run m [c])"
  by (auto simp: machine_can_run_def machine_from_def intro: exec_machine_command_sound split: option.splits)

lemma machine_from_reachable:
  "machine_can_run olt run (init_machine t0 w) cs ls \<Longrightarrow> list_all (allowed calls) cs \<Longrightarrow>
   machine_reachable olt calls run (machine_from olt run (init_machine t0 w) cs)"
  unfolding machine_reachable_def using machine_from_steps by blast

end
