(* ===== verification/EmulationThreads.thy ===== *)
theory EmulationThreads imports FramePath ThreadActions begin

text \<open>
  The threads of the emulation as machines of the theory ThreadActions: the bus's thread runs
  \<open>run_bus_task\<close> on whatever takes its frames, a host's thread runs \<open>run_host_task\<close> on its
  stack. The interfaces, filters and observers of the bus do not change while it runs.
\<close>

section \<open>The bus's thread\<close>

definition bus_calls :: "(bus_action, bus_val) call set" where
  "bus_calls = range (\<lambda>(i, d). (0, 0, Broadcast, [Netif_obj i, Frame d]))"

definition bus_frame :: "(bus_action, bus_val) task \<Rightarrow> nat \<times> frame" where
  "bus_frame t = (case args t of [Netif_obj i, Frame d] \<Rightarrow> (i, d) | _ \<Rightarrow> (0, []))"

type_synonym 's bus_machine = "(bus_action, bus_val, 's) machine"

definition sent_frames :: "'s bus_machine \<Rightarrow> (nat \<times> frame) list" where
  "sent_frames m = map bus_frame (accepted m)"

definition carried_frames :: "'s bus_machine \<Rightarrow> (nat \<times> frame) list" where
  "carried_frames m = map (\<lambda>(t, _). bus_frame t) (executed m)"

abbreviation bus_step :: "'s bus \<Rightarrow> 's bus_machine \<Rightarrow> label option \<Rightarrow> 's bus_machine \<Rightarrow> bool" where
  "bus_step b \<equiv> machine_step bus_val_lt bus_calls (run_bus_task b)"

abbreviation bus_steps :: "'s bus \<Rightarrow> 's bus_machine \<Rightarrow> label option list \<Rightarrow> 's bus_machine \<Rightarrow> bool" where
  "bus_steps b \<equiv> machine_steps bus_val_lt bus_calls (run_bus_task b)"

abbreviation bus_reachable :: "'s bus \<Rightarrow> 's bus_machine \<Rightarrow> bool" where
  "bus_reachable b \<equiv> machine_reachable bus_val_lt bus_calls (run_bus_task b)"

lemma bus_undelayed: "undelayed bus_calls"
  by (auto simp: undelayed_def bus_calls_def)

text \<open>The client step is the bus's \<open>broadcast\<close>.\<close>

lemma broadcast_is_step:
  assumes "broadcast (now (thread m)) i d (ex (thread m)) = (r, x)"
  shows "\<exists>m'. bus_step b m (Some Schedule) m' \<and> ex (thread m') = x \<and> world m' = world m \<and>
    sent_frames m' = sent_frames m @ (if status (ex (thread m)) = Running then [(i, d)] else [])"
proof -
  obtain q where q: "schedule_delayed bus_val_lt (now (thread m)) 0 0 Broadcast [Netif_obj i, Frame d] [] (ex (thread m)) = (q, x)"
    using assms by (auto simp: broadcast_def py_simps split: prod.splits sum.splits)
  let ?th = "(thread m)\<lparr>ex := x, worker := (case q of Inl e \<Rightarrow> worker (thread m) | Inr f \<Rightarrow> notify (worker (thread m)))\<rparr>"
  let ?m = "m\<lparr>thread := ?th, accepted := accepted m @ made_tasks (0, 0, Broadcast, [Netif_obj i, Frame d]) (thread m)\<rparr>"
  have "(0, 0, Broadcast, [Netif_obj i, Frame d]) \<in> bus_calls" by (auto simp: bus_calls_def)
  from machine_step.client_calls [OF this q refl, of "run_bus_task b"]
  have "bus_step b m (Some Schedule) ?m" .
  moreover have "sent_frames ?m = sent_frames m @ (if status (ex (thread m)) = Running then [(i, d)] else [])"
    by (simp add: sent_frames_def made_tasks_def bus_frame_def new_task_def)
  ultimately show ?thesis by (intro exI [of _ ?m]) simp
qed

lemma accepted_from_calls:
  assumes "machine_reachable olt calls run m"
    and "\<And>time delay prio act vs f. (delay, prio, act, vs) \<in> calls \<Longrightarrow> P (new_task time delay prio act vs [] f)"
  shows "\<forall>t \<in> set (accepted m). P t"
  using assms(1)
proof (induction rule: machine_reachable_induct)
  case (init t0 w)
  show ?case by (simp add: init_machine_def)
next
  case (step m l m')
  from step(2,3) assms(2) show ?case by (cases rule: machine_step.cases) (auto simp: made_tasks_def)
qed

lemma bus_task_runs:
  assumes "bus_reachable b m" and "t \<in> set (accepted m)"
  shows "run_bus_task b t = broadcast_now b (fst (bus_frame t)) (snd (bus_frame t))"
proof -
  have "\<forall>t \<in> set (accepted m). run_bus_task b t = broadcast_now b (fst (bus_frame t)) (snd (bus_frame t))"
    by (rule accepted_from_calls [OF assms(1)]) (auto simp: bus_calls_def run_bus_task_def bus_frame_def new_task_def)
  with assms(2) show ?thesis by blast
qed

section \<open>Properties of the bus's thread\<close>


text \<open>Two broadcasts on a bus with a filter that refuses the empty frame; the world logs what arrives.\<close>

definition log_bus :: "(nat \<times> frame) list bus" where
  "log_bus = \<lparr>bus_interfaces = [(1, \<lambda>i d log. (Inr (), log @ [(i, d)])), (2, \<lambda>i d log. (Inl Stopped_exc, log))],
     observers = [], filters = [pure_filter (\<lambda>i d. d \<noteq> [])]\<rparr>"

definition two_broadcasts :: "(bus_action, bus_val, (nat \<times> frame) list) machine_command list" where
  "two_broadcasts = [Thread_does DoStart, Thread_does DoEnter, Thread_does (DoTick 1),
     Client_calls (0, 0, Broadcast, [Netif_obj 2, Frame [7]]), Thread_does (DoTick 2),
     Client_calls (0, 0, Broadcast, [Netif_obj 1, Frame [8, 9]]), Thread_does (DoCheck 3),
     Thread_does DoBatch, Action_ends, Thread_does DoCount, Thread_does DoBatch]"

definition log_machine :: "(nat \<times> frame) list bus_machine" where
  "log_machine = machine_from bus_val_lt (run_bus_task log_bus) (init_machine 0 []) two_broadcasts"

lemma log_machine_reachable: "bus_reachable log_bus log_machine"
proof -
  have "machine_can_run bus_val_lt (run_bus_task log_bus) (init_machine 0 []) two_broadcasts
      (map Some [StartThread, EnterRun, Tick, Schedule, Tick, Schedule, CheckDue, BeginTask, EndTask, CountDown, BeginTask])"
    by code_simp
  moreover have "list_all (allowed bus_calls) two_broadcasts"
    by (simp add: two_broadcasts_def bus_calls_def image_iff)
  ultimately show ?thesis unfolding log_machine_def by (rule machine_from_reachable)
qed



text \<open>The two broadcasts above, and a third that is queued when the thread is stopped asleep.\<close>

definition drain_bus :: "(bus_action, bus_val, (nat \<times> frame) list) machine_command list" where
  "drain_bus = [Thread_does (DoCheck 5), Thread_does DoBatch, Action_ends, Thread_does DoCount, Thread_does DoBatch,
     Thread_does (DoCheck 6)]"

definition loaded_machine :: "(nat \<times> frame) list bus_machine" where
  "loaded_machine = machine_from bus_val_lt (run_bus_task log_bus) (init_machine 0 [])
     (two_broadcasts @ [Action_ends, Thread_does DoCount, Thread_does DoBatch, Thread_does (DoTick 4),
        Client_calls (0, 0, Broadcast, [Netif_obj 3, Frame [5]])])"



section \<open>A host's thread\<close>

text \<open>
  What the others schedule on a host whose clients ask for no delay: the bus its frames, the
  network the activation of the interfaces, applications their actions.
\<close>

definition host_calls :: "(host_action, host_val) call set" where
  "host_calls =
     range (\<lambda>(k, d). (IMMEDIATE, TOP_PRIO, Input_data k, [Frame_val d])) \<union>
     {(IMMEDIATE, TOP_PRIO, Set_up_interfaces, [])} \<union>
     range (\<lambda>(a, self). (0, TOP_PRIO, User_action a, [Host_val self]))"

lemma host_undelayed: "undelayed host_calls"
  by (auto simp: undelayed_def host_calls_def IMMEDIATE_def)

type_synonym ('l, 'o) host_machine = "(host_action, host_val, 'l stack \<times> 'o) machine"

text \<open>The frames for the interface \<open>k\<close> among tasks; those a host took on, and those its thread handed to the stack.\<close>

definition frames_for :: "nat \<Rightarrow> (host_action, host_val) task list \<Rightarrow> frame list" where
  "frames_for k ts = map frame_of (filter (\<lambda>t. action t = Input_data k) ts)"

definition arrived :: "nat \<Rightarrow> ('l, 'o) host_machine \<Rightarrow> frame list" where
  "arrived k m = frames_for k (accepted m)"

definition input_frames :: "nat \<Rightarrow> ('l, 'o) host_machine \<Rightarrow> frame list" where
  "input_frames k m = frames_for k (map fst (executed m))"

lemma frames_for_append [simp]: "frames_for k (ts @ us) = frames_for k ts @ frames_for k us"
  by (simp add: frames_for_def)

text \<open>
  Frames reach lwIP in the order in which they reached the host: in every run of a host's
  thread, whatever its tasks, its applications and other threads do and raise, and when no two
  tasks were scheduled at the same time, the frames that the thread has handed to an interface
  are the first of those \<open>on_incoming_data\<close> queued for it, in order and each once, and no
  exception ends the thread.
\<close>

lemma host_inputs_in_order:
  assumes "machine_reachable host_val_lt host_calls (run_host_task other user) m"
    and "distinct (map abs_time (accepted m))"
  shows "(\<exists>rest. arrived k m = input_frames k m @ rest) \<and> \<not> crashed (worker (thread m))"
proof -
  obtain rest where "accepted m = map fst (executed m) @ rest"
    using executed_prefix [OF assms(1) host_undelayed assms(2)] by blast
  then have "arrived k m = input_frames k m @ frames_for k rest" by (simp add: arrived_def input_frames_def)
  moreover have "alive (worker (thread m))" using machine_alive [OF assms(1) host_undelayed] assms(2) by blast
  then have "\<not> crashed (worker (thread m))" by (auto simp: crashed_def split: worker.splits)
  ultimately show ?thesis by blast
qed

end
