(* ===== verification/NetworkRuns.thy ===== *)
theory NetworkRuns imports EmulationThreads "HOL-Library.Sublist" begin

text \<open>
  The running network: the bus's thread and all hosts' threads at once, with their queues, their
  stacks and applications. The world of the bus's machine is the hosts' machines: a broadcast
  schedules on them. Each step is one of the bus's thread or a client of the bus (a stack that
  sends a frame), or one of a host's thread or of a client of that host.
\<close>

section \<open>The system\<close>

type_synonym ('l, 'o) hosts_world = "nat \<Rightarrow> ('l, 'o) host_machine"

text \<open>
  The callback that \<open>add_host\<close> gives to the bus for the interface \<open>i\<close>, \<open>on_incoming_data\<close> of its host. It
  reads the clock, which shows \<open>clock n\<close> when the host has last seen \<open>n\<close>.
\<close>

definition deliver_to_machine :: "(rat \<Rightarrow> rat) \<Rightarrow> (nat \<Rightarrow> nat) \<Rightarrow> nat \<Rightarrow> frame \<Rightarrow> (('l, 'o) hosts_world, unit) py" where
  "deliver_to_machine clock owner_of i d w =
     (let h = owner_of i; m = w h; s = (thread m)\<lparr>now := clock (now (thread m))\<rparr> in
      case on_incoming_data i d s of
        (r, th) \<Rightarrow>
          (r, w(h := m\<lparr>thread := th,
                 accepted := accepted m @ made_tasks (IMMEDIATE, TOP_PRIO, Input_data i, [Frame_val d]) s\<rparr>)))"

text \<open>What is scheduled on a host from elsewhere than the bus.\<close>

definition own_calls :: "(host_action, host_val) call set" where
  "own_calls = {(delay, prio, act, arguments) \<in> host_calls. \<forall>k. act \<noteq> Input_data k}"

text \<open>The code of others on each host: library functions called through pointers, and applications.\<close>

record ('l, 'o) host_code =
  others :: "c_fun \<Rightarrow> py_val list \<Rightarrow> ('l cmem, py_val) py"
  users :: "nat \<Rightarrow> ('l stack \<times> 'o, unit) py"

definition run_on_host :: "('l, 'o) host_code \<Rightarrow> (host_action, host_val) task \<Rightarrow> ('l stack \<times> 'o, unit) py" where
  "run_on_host code = run_host_task (others code) (users code)"

inductive network_step ::
  "('l, 'o) hosts_world bus \<Rightarrow> (nat \<Rightarrow> ('l, 'o) host_code) \<Rightarrow>
   ('l, 'o) hosts_world bus_machine \<Rightarrow> ('l, 'o) hosts_world bus_machine \<Rightarrow> bool"
  for b :: "('l, 'o) hosts_world bus" and code :: "nat \<Rightarrow> ('l, 'o) host_code" where
  bus_moves: "bus_step b m (Some l) m' \<Longrightarrow> network_step b code m m'"
| host_moves: "machine_step host_val_lt own_calls (run_on_host (code h)) (world m h) l x \<Longrightarrow>
    network_step b code m (m\<lparr>world := (world m)(h := x)\<rparr>)"

inductive network_reachable ::
  "('l, 'o) hosts_world bus \<Rightarrow> (nat \<Rightarrow> ('l, 'o) host_code) \<Rightarrow> ('l, 'o) hosts_world bus_machine \<Rightarrow> bool"
  for b :: "('l, 'o) hosts_world bus" and code :: "nat \<Rightarrow> ('l, 'o) host_code" where
  network_init: "network_reachable b code (init_machine t0 (\<lambda>h. init_machine (t h) (st h)))"
| network_next: "network_reachable b code m \<Longrightarrow> network_step b code m m' \<Longrightarrow> network_reachable b code m'"

section \<open>Its threads\<close>

abbreviation host_reachable :: "('l, 'o) host_code \<Rightarrow> ('l, 'o) host_machine \<Rightarrow> bool" where
  "host_reachable code \<equiv> machine_reachable host_val_lt host_calls (run_on_host code)"

lemma machine_step_mono:
  "machine_step olt calls run m l m' \<Longrightarrow> calls \<subseteq> calls' \<Longrightarrow> machine_step olt calls' run m l m'"
  by (induction rule: machine_step.induct) (auto intro: machine_step.intros)

lemma own_calls_subset: "own_calls \<subseteq> host_calls"
  by (auto simp: own_calls_def)

lemma network_bus_reachable: "network_reachable b code m \<Longrightarrow> bus_reachable b m"
proof (induction rule: network_reachable.induct)
  case (network_init t0 t st)
  show ?case unfolding machine_reachable_def by (blast intro: machine_Nil)
next
  case (network_next m m')
  from network_next(2,3) show ?case
    by (cases rule: network_step.cases) (blast intro: machine_reachable_step world_moves)+
qed

text \<open>A delivery is a step of the host's machine, and brings the frame if the host runs.\<close>

lemma deliver_effect:
  assumes del: "deliver_to_machine clock owner_of i d w = (r, w')" and clock: "\<And>n. n \<le> clock n"
  shows "host_reachable code (w h) \<Longrightarrow> host_reachable code (w' h)"
    and "arrived k (w' h) = arrived k (w h) @
      (if h = owner_of i \<and> k = i \<and> status (ex (thread (w h))) = Running then [d] else [])"
proof -
  let ?h = "owner_of i"
  let ?m = "w ?h"
  let ?s = "(thread ?m)\<lparr>now := clock (now (thread ?m))\<rparr>"
  obtain q x where sch: "schedule_delayed host_val_lt (now ?s) IMMEDIATE TOP_PRIO (Input_data i) [Frame_val d] [] (ex ?s) = (q, x)"
    by force
  let ?th = "?s\<lparr>ex := x, worker := (case q of Inl e \<Rightarrow> worker ?s | Inr f \<Rightarrow> notify (worker ?s))\<rparr>"
  let ?m' = "?m\<lparr>thread := ?th, accepted := accepted ?m @ made_tasks (IMMEDIATE, TOP_PRIO, Input_data i, [Frame_val d]) ?s\<rparr>"
  have w': "w' = w(?h := ?m')"
    using del sch
    by (auto simp: deliver_to_machine_def on_incoming_data_def sys_schedule_def py_bind_def py_return_def Let_def
        split: prod.splits sum.splits)
  have new: "made_tasks (IMMEDIATE, TOP_PRIO, Input_data i, [Frame_val d]) ?s =
      (if status (ex (thread ?m)) = Running
       then [new_task (clock (now (thread ?m))) IMMEDIATE TOP_PRIO (Input_data i) [Frame_val d] [] (next_future (ex (thread ?m)))] else [])"
    by (simp add: made_tasks_def)
  show "arrived k (w' h) = arrived k (w h) @
      (if h = owner_of i \<and> k = i \<and> status (ex (thread (w h))) = Running then [d] else [])"
    unfolding w' arrived_def
    by (simp add: new) (auto simp: frames_for_def new_frame_simps)
  assume reach: "host_reachable code (w h)"
  show "host_reachable code (w' h)"
  proof (cases "h = ?h")
    case True
    have "sched_step host_val_lt (thread ?m) Tick ?s" using clock by (intro sched_step.tick)
    then have "machine_step host_val_lt host_calls (run_on_host code) ?m (Some Tick) (?m\<lparr>thread := ?s\<rparr>)"
      by (intro thread_moves) simp_all
    with reach True have r1: "host_reachable code (?m\<lparr>thread := ?s\<rparr>)" using machine_reachable_step by blast
    have "(IMMEDIATE, TOP_PRIO, Input_data i, [Frame_val d]) \<in> host_calls" by (auto simp: host_calls_def)
    from machine_step.client_calls [OF this, where m = "?m\<lparr>thread := ?s\<rparr>" and olt = host_val_lt and r = q and x = x and
        th = ?th and run = "run_on_host code"] sch
    have "machine_step host_val_lt host_calls (run_on_host code) (?m\<lparr>thread := ?s\<rparr>) (Some Schedule) ?m'"
      by (simp cong: sum.case_cong)
    with r1 True show ?thesis unfolding w' using machine_reachable_step by fastforce
  next
    case False
    with reach show ?thesis by (simp add: w')
  qed
qed

lemma deliveries_effect:
  assumes "py_for (connected (deliver_to_machine clock owner_of) js) (\<lambda>(i, cb). cb i d) w = (r, w')"
    and "\<And>n. n \<le> clock n"
  shows "(host_reachable code (w h) \<longrightarrow> host_reachable code (w' h)) \<and>
    (\<exists>n \<le> count_list js k. arrived k (w' h) = arrived k (w h) @ replicate n d)"
  using assms(1)
proof (induction js arbitrary: w)
  case Nil
  then show ?case by (auto simp: connected_def py_simps)
next
  case (Cons j js)
  obtain r1 w1 where w1: "deliver_to_machine clock owner_of j d w = (r1, w1)" by force
  note one = deliver_effect(1) [OF w1 assms(2), of code h]
  have fst1: "\<exists>n \<le> (if k = j then 1 else 0). arrived k (w1 h) = arrived k (w h) @ replicate n d"
    using deliver_effect(2) [OF w1 assms(2), of k h]
    by (cases "h = owner_of j \<and> k = j \<and> status (ex (thread (w h))) = Running")
      (auto intro: exI [of _ "Suc 0"] exI [of _ 0])
  show ?case
  proof (cases r1)
    case (Inl e)
    with Cons.prems w1 have "w' = w1" by (simp add: connected_def py_simps)
    with one fst1 show ?thesis by (auto intro: le_trans split: if_splits)
  next
    case (Inr u)
    with Cons.prems w1 have "py_for (connected (deliver_to_machine clock owner_of) js) (\<lambda>(i, cb). cb i d) w1 = (r, w')"
      by (simp add: connected_def py_simps)
    from Cons.IH [OF this] one fst1 obtain n1 n2 where
      "host_reachable code (w h) \<longrightarrow> host_reachable code (w' h)" "n1 \<le> (if k = j then 1 else 0)" "n2 \<le> count_list js k"
      "arrived k (w' h) = arrived k (w h) @ replicate (n1 + n2) d"
      by (auto simp: replicate_add)
    then show ?thesis by (intro conjI exI [of _ "n1 + n2"]) auto
  qed
qed

text \<open>Deliveries that return have all been made.\<close>

lemma deliver_returns:
  assumes "deliver_to_machine clock owner_of i d w = (Inr (), w')" and "host_reachable code (w (owner_of i))"
  shows "status (ex (thread (w (owner_of i)))) = Running"
proof (rule ccontr)
  let ?m = "w (owner_of i)"
  assume stopped: "status (ex (thread ?m)) \<noteq> Running"
  have "\<not> locked (ex (thread ?m))"
    using sys_inv_unlocked reachable_inv machine_reachable_thread [OF assms(2)] by blast
  from schedule_when_stopped [OF this stopped] assms(1) show False
    by (simp add: deliver_to_machine_def on_incoming_data_def sys_schedule_def py_bind_def Let_def)
qed

lemma deliveries_return:
  assumes "py_for (connected (deliver_to_machine clock owner_of) js) (\<lambda>(i, cb). cb i d) w = (Inr (), w')"
    and "\<And>n. n \<le> clock n" and "\<And>h. host_reachable (code h) (w h)"
  shows "arrived k (w' (owner_of k)) = arrived k (w (owner_of k)) @ replicate (count_list js k) d"
  using assms(1,3)
proof (induction js arbitrary: w)
  case Nil
  then show ?case by (simp add: connected_def py_simps)
next
  case (Cons j js)
  obtain r1 w1 where w1: "deliver_to_machine clock owner_of j d w = (r1, w1)" by force
  then have r1: "r1 = Inr ()" using Cons.prems(1) by (cases r1) (simp_all add: connected_def py_simps)
  have "py_for (connected (deliver_to_machine clock owner_of) js) (\<lambda>(i, cb). cb i d) w1 = (Inr (), w')"
    using Cons.prems(1) w1 r1 by (simp add: connected_def py_simps)
  from Cons.IH [OF this] deliver_effect(1) [OF w1 assms(2)] Cons.prems(2)
  have "arrived k (w' (owner_of k)) = arrived k (w1 (owner_of k)) @ replicate (count_list js k) d" by blast
  then show ?case
    using deliver_effect(2) [OF w1 assms(2), of k "owner_of k"] deliver_returns [OF w1 [unfolded r1] Cons.prems(2)]
    by auto
qed


lemma py_for_keeps:
  assumes "\<forall>x \<in> set xs. \<forall>s. snd (f x s) = s"
  shows "snd (py_for xs f s) = s"
  using assms
proof (induction xs arbitrary: s)
  case (Cons x xs)
  obtain r where "f x s = (r, s)" using Cons.prems by (metis list.set_intros(1) prod.collapse)
  with Cons show ?case by (cases r) (auto simp: py_simps)
qed (simp add: py_simps)

text \<open>Observers that leave the hosts alone, and filters that look at the frame only.\<close>

definition harmless :: "(nat \<Rightarrow> frame \<Rightarrow> bool \<Rightarrow> ('s, unit) py) \<Rightarrow> bool" where
  "harmless ob \<longleftrightarrow> (\<forall>i d f s. snd (ob i d f s) = s)"

definition others_frames :: "(nat \<Rightarrow> frame \<Rightarrow> bool) list \<Rightarrow> nat \<Rightarrow> (nat \<times> frame) list \<Rightarrow> frame list" where
  "others_frames ps k fs = map snd (filter (\<lambda>(i, d). i \<noteq> k \<and> (\<forall>p \<in> set ps. p i d)) fs)"

lemma others_frames_append [simp]: "others_frames ps k (fs @ gs) = others_frames ps k fs @ others_frames ps k gs"
  by (simp add: others_frames_def)

lemma count_list_distinct: "distinct xs \<Longrightarrow> count_list xs k = (if k \<in> set xs then 1 else 0)"
  by (induction xs) auto

lemma broadcast_parts:
  assumes run: "broadcast_now b j d w = (r, w')"
    and b: "bus_interfaces b = connected give is" "filters b = map pure_filter ps" "\<forall>ob \<in> set (observers b). harmless ob"
  obtains "w' = w" "r = Inr () \<Longrightarrow> \<not> (\<forall>p \<in> set ps. p j d)"
  | "\<forall>p \<in> set ps. p j d" "py_for (connected give (filter (\<lambda>i. i \<noteq> j) is)) (\<lambda>(i, cb). cb i d) w = (r, w')"
proof -
  define fwd where "fwd \<longleftrightarrow> (\<forall>p \<in> set ps. p j d)"
  let ?obs = "py_for (observers b) (\<lambda>ob. ob j d fwd) w"
  have fil: "(if filters b \<noteq> [] then all_filters (filters b) j d else py_return True) = py_return fwd"
    by (cases ps) (simp_all add: b(2) all_filters_pure fwd_def flip: list.map)
  have "snd ?obs = w" using b(3) by (intro py_for_keeps) (simp add: harmless_def)
  then obtain q where q: "?obs = (q, w)" by (metis prod.collapse)
  show thesis
    using run q that unfolding broadcast_now_def fil py_for_filter b(1) fwd_def [symmetric]
    by (cases q; cases fwd) (auto simp: py_simps connected_def filter_map comp_def)
qed

lemma broadcast_effect:
  assumes run: "broadcast_now b j d w = (r, w')" and clock: "\<And>n. n \<le> clock n"
    and b: "bus_interfaces b = connected (deliver_to_machine clock owner_of) is" "filters b = map pure_filter ps"
      "\<forall>ob \<in> set (observers b). harmless ob" "distinct is"
  shows "(host_reachable code (w h) \<longrightarrow> host_reachable code (w' h)) \<and>
    (\<exists>n \<le> length (others_frames ps k [(j, d)]). arrived k (w' h) = arrived k (w h) @ replicate n d)"
proof (rule broadcast_parts [OF run b(1-3)], goal_cases)
  case 1
  then show ?case by (auto intro: exI [of _ 0])
next
  case 2
  have "count_list (filter (\<lambda>i. i \<noteq> j) is) k \<le> length (others_frames ps k [(j, d)])"
    using b(4) 2(1) count_list_distinct [of "is" k]
    by (auto simp: others_frames_def rx.count_filter_ne)
  with deliveries_effect [OF 2(2) clock, of code h k] show ?case by (meson le_trans)
qed

lemma broadcast_returns:
  assumes run: "broadcast_now b j d w = (Inr (), w')" and clock: "\<And>n. n \<le> clock n"
    and b: "bus_interfaces b = connected (deliver_to_machine clock owner_of) is" "filters b = map pure_filter ps"
      "\<forall>ob \<in> set (observers b). harmless ob" "distinct is" "k \<in> set is"
    and "\<And>h. host_reachable (code h) (w h)"
  shows "arrived k (w' (owner_of k)) = arrived k (w (owner_of k)) @ others_frames ps k [(j, d)]"
proof (rule broadcast_parts [OF run b(1-3)], goal_cases)
  case 1
  then show ?case by (auto simp: others_frames_def)
next
  case 2
  have "replicate (count_list (filter (\<lambda>i. i \<noteq> j) is) k) d = others_frames ps k [(j, d)]"
    using b(4,5) 2(1) count_list_distinct [of "is" k] by (auto simp: others_frames_def rx.count_filter_ne)
  with deliveries_return [where code = code, OF 2(2) clock assms(8), of k] show ?case by simp
qed


section \<open>Frames end to end\<close>

lemma subseq_front: "subseq xs (xs @ ys)"
  by (rule subseq_rev_drop_many) simp

text \<open>Steps of a host bring no frames, only deliveries do.\<close>

lemma host_step_arrived:
  "machine_step host_val_lt own_calls run x l x' \<Longrightarrow> arrived k x' = arrived k x"
  by (cases rule: machine_step.cases)
    (auto simp: arrived_def frames_for_def made_tasks_def own_calls_def new_frame_simps)

lemma network_hosts:
  assumes "network_reachable b code m" and clock: "\<And>n. n \<le> clock n"
    and b: "bus_interfaces b = connected (deliver_to_machine clock owner_of) is" "filters b = map pure_filter ps"
      "\<forall>ob \<in> set (observers b). harmless ob" "distinct is"
  shows "(\<forall>h. host_reachable (code h) (world m h)) \<and>
    (\<forall>h k. subseq (arrived k (world m h)) (others_frames ps k (carried_frames m)))"
  using assms(1)
proof (induction rule: network_reachable.induct)
  case (network_init t0 t st)
  have "host_reachable (code h) (init_machine (t h) (st h))" for h
    unfolding machine_reachable_def by (blast intro: machine_Nil)
  then show ?case by (simp add: init_machine_def arrived_def frames_for_def)
next
  case (network_next m m')
  from network_next(2) show ?case
  proof (cases rule: network_step.cases)
    case (host_moves h l x)
    have "machine_step host_val_lt host_calls (run_on_host (code h)) (world m h) l x"
      using machine_step_mono [OF host_moves(2) own_calls_subset] .
    then have "host_reachable (code h) x" using machine_reachable_step network_next(3) by blast
    moreover have "arrived k x = arrived k (world m h)" for k using host_step_arrived [OF host_moves(2)] .
    ultimately show ?thesis using network_next(3) host_moves(1) by (simp add: carried_frames_def)
  next
    case (bus_moves l)
    from bus_moves show ?thesis
    proof (cases rule: machine_step.cases)
      case (action_ends t ts r w q x th)
      show ?thesis
      proof (cases "\<exists>j d. args t = [Netif_obj j, Frame d]")
        case True
        then obtain j d where args: "args t = [Netif_obj j, Frame d]" by blast
        then have run: "broadcast_now b j d (world m) = (r, w)" using action_ends(4) by (simp add: run_bus_task_def)
        have carried: "carried_frames m' = carried_frames m @ [(j, d)]"
          using action_ends(2) args by (simp add: carried_frames_def bus_frame_def)
        have "subseq (arrived k (w h)) (others_frames ps k (carried_frames m'))" for h k
        proof -
          obtain n where n: "n \<le> length (others_frames ps k [(j, d)])" "arrived k (w h) = arrived k (world m h) @ replicate n d"
            using broadcast_effect [OF run clock b] by blast
          have "subseq (replicate n d) (others_frames ps k [(j, d)])"
            using n(1) by (cases n) (auto simp: others_frames_def split: if_splits)
          with network_next(3) show ?thesis
            unfolding carried n(2) others_frames_append by (blast intro: list_emb_append_mono)
        qed
        moreover have "host_reachable (code h) (w h)" for h
          using broadcast_effect [OF run clock b, of "code h"] network_next(3) by blast
        ultimately show ?thesis using action_ends(2) by simp
      next
        case False
        then have "w = world m"
          using action_ends(4) by (auto simp: run_bus_task_def py_raise_def split: list.splits bus_val.splits)
        moreover have "\<exists>fs. carried_frames m' = carried_frames m @ fs" using action_ends(2) by (simp add: carried_frames_def)
        ultimately show ?thesis using network_next(3) action_ends(2) by (auto simp: subseq_rev_drop_many)
      qed
    qed (use network_next(3) in \<open>auto simp: carried_frames_def\<close>)
  qed
qed

lemma network_complete:
  assumes "network_reachable b code m" and clock: "\<And>n. n \<le> clock n"
    and b: "bus_interfaces b = connected (deliver_to_machine clock owner_of) is" "filters b = map pure_filter ps"
      "\<forall>ob \<in> set (observers b). harmless ob" "distinct is"
  shows "k \<in> set is \<Longrightarrow> \<forall>(t, r) \<in> set (executed m). r = Inr () \<Longrightarrow>
    arrived k (world m (owner_of k)) = others_frames ps k (carried_frames m)"
  using assms(1)
proof (induction rule: network_reachable.induct)
  case (network_init t0 t st)
  show ?case by (simp add: init_machine_def arrived_def frames_for_def carried_frames_def others_frames_def)
next
  case (network_next m m')
  from network_next(2) show ?case
  proof (cases rule: network_step.cases)
    case (host_moves h l x)
    from host_step_arrived [OF host_moves(2), of k] network_next(3-5) host_moves(1) show ?thesis
      by (auto simp: carried_frames_def)
  next
    case (bus_moves l)
    from bus_moves show ?thesis
    proof (cases rule: machine_step.cases)
      case (action_ends t ts r w q x th)
      have r: "r = Inr ()" and old: "\<forall>(t, r) \<in> set (executed m). r = Inr ()"
        using network_next(5) action_ends(2) by auto
      obtain j d where args: "args t = [Netif_obj j, Frame d]" and run: "broadcast_now b j d (world m) = (Inr (), w)"
        using action_ends(4) unfolding r by (auto simp: run_bus_task_def py_raise_def split: list.splits bus_val.splits)
      have carried: "carried_frames m' = carried_frames m @ [(j, d)]"
        using action_ends(2) args by (simp add: carried_frames_def bus_frame_def)
      have reach: "host_reachable (code h) (world m h)" for h
        using network_hosts [OF network_next(1) clock b] by blast
      from broadcast_returns [OF run clock b network_next(4), of code] reach network_next(3) [OF network_next(4) old]
      show ?thesis unfolding carried others_frames_append by (simp add: action_ends(2))
    qed (use network_next(3-5) in \<open>auto simp: carried_frames_def\<close>)
  qed
qed



section \<open>A run\<close>

text \<open>The steps as a function.\<close>

datatype ('l, 'o) network_command =
    Bus_does "(bus_action, bus_val, ('l, 'o) hosts_world) machine_command"
  | Host_does nat "(host_action, host_val, 'l stack \<times> 'o) machine_command"

fun exec_network_command ::
  "('l, 'o) hosts_world bus \<Rightarrow> (nat \<Rightarrow> ('l, 'o) host_code) \<Rightarrow> ('l, 'o) network_command \<Rightarrow>
   ('l, 'o) hosts_world bus_machine \<Rightarrow> ('l, 'o) hosts_world bus_machine option" where
  "exec_network_command b code (Bus_does c) m =
     (case exec_machine_command bus_val_lt (run_bus_task b) c m of Some (Some l, m') \<Rightarrow> Some m' | _ \<Rightarrow> None)"
| "exec_network_command b code (Host_does h c) m =
     (case exec_machine_command host_val_lt (run_on_host (code h)) c (world m h) of
        None \<Rightarrow> None | Some (l, x) \<Rightarrow> Some (m\<lparr>world := (world m)(h := x)\<rparr>))"

fun network_allowed :: "('l, 'o) network_command \<Rightarrow> bool" where
  "network_allowed (Bus_does c) = allowed bus_calls c"
| "network_allowed (Host_does h c) = allowed own_calls c"

fun exec_network ::
  "('l, 'o) hosts_world bus \<Rightarrow> (nat \<Rightarrow> ('l, 'o) host_code) \<Rightarrow> ('l, 'o) network_command list \<Rightarrow>
   ('l, 'o) hosts_world bus_machine \<Rightarrow> ('l, 'o) hosts_world bus_machine option" where
  "exec_network b code [] m = Some m"
| "exec_network b code (c # cs) m =
     (case exec_network_command b code c m of None \<Rightarrow> None | Some m' \<Rightarrow> exec_network b code cs m')"

lemma exec_network_reachable:
  "exec_network b code cs m = Some m' \<Longrightarrow> list_all network_allowed cs \<Longrightarrow> network_reachable b code m \<Longrightarrow>
   network_reachable b code m'"
proof (induction cs arbitrary: m)
  case (Cons c cs)
  then obtain m1 where m1: "exec_network_command b code c m = Some m1" "exec_network b code cs m1 = Some m'"
    by (auto split: option.splits)
  have "network_step b code m m1"
  proof (cases c)
    case (Bus_does k)
    with m1(1) obtain l where "exec_machine_command bus_val_lt (run_bus_task b) k m = Some (Some l, m1)"
      by (auto split: option.splits)
    with Bus_does Cons.prems(2) show ?thesis by (intro bus_moves exec_machine_command_sound) auto
  next
    case (Host_does h k)
    with m1(1) Cons.prems(2) show ?thesis
      by (auto intro!: host_moves exec_machine_command_sound split: option.splits)
  qed
  with Cons.IH [OF m1(2)] Cons.prems show ?case by (auto intro: network_next)
qed simp

text \<open>
  Two hosts, with the interfaces 0 and 1; the stack of the second has loaded no library, so that
  its task raises.
\<close>

definition pair_bus :: "(nat list, unit) hosts_world bus" where
  "pair_bus = \<lparr>bus_interfaces = connected (deliver_to_machine (\<lambda>n. n + 1) id) [0, 1], observers = [], filters = []\<rparr>"

definition no_code :: "(nat list, unit) host_code" where
  "no_code = \<lparr>others = (\<lambda>_ _. py_raise (AppError 0)), users = (\<lambda>_. py_return ())\<rparr>"

definition pair_start :: "(nat list, unit) hosts_world bus_machine" where
  "pair_start = init_machine 0 (\<lambda>h. init_machine 0 (stack_new (make_loader ''liblwip.so'') sample_mem h, ()))"

definition pair_commands :: "(nat list, unit) network_command list" where
  "pair_commands = [Bus_does (Thread_does DoStart), Bus_does (Thread_does DoEnter), Host_does 1 (Thread_does DoStart),
     Host_does 1 (Thread_does DoEnter), Bus_does (Client_calls (0, 0, Broadcast, [Netif_obj 0, Frame [7]])),
     Bus_does (Thread_does (DoTick 1)), Bus_does (Client_calls (0, 0, Broadcast, [Netif_obj 0, Frame [8]])),
     Bus_does (Thread_does (DoCheck 2)), Bus_does (Thread_does DoBatch), Bus_does Action_ends,
     Bus_does (Thread_does DoCount), Bus_does (Thread_does DoBatch), Bus_does Action_ends,
     Host_does 1 (Thread_does (DoCheck 2)), Host_does 1 (Thread_does DoBatch), Host_does 1 Action_ends]"


end
