(* ===== verification/ExampleApps.thy ===== *)
theory ExampleApps imports FramePath begin

text \<open>
  The applications of \<^verbatim>\<open>examples/examples.py\<close>: a UDP ping-pong between two peers and
  the pinger. An application is an object of its own beside the stack; what it does in the
  host's thread are the host's user actions.
\<close>

section \<open>Integers as bytes\<close>

text \<open>Python's \<^verbatim>\<open>int.to_bytes(n, 'big')\<close> and \<^verbatim>\<open>int.from_bytes(data, 'big')\<close>.\<close>

definition to_bytes :: "nat \<Rightarrow> int \<Rightarrow> byte list res" where
  "to_bytes n k =
     (if k < 0 \<or> 256 ^ n \<le> k then Inl OverflowError
      else Inr (map (\<lambda>i. word_of_int (k div 256 ^ i)) (rev [0..<n])))"

definition from_bytes :: "byte list \<Rightarrow> int" where
  "from_bytes bs = foldl (\<lambda>k b. k * 256 + uint b) 0 bs"

lemma foldl_bytes:
  "foldl (\<lambda>k b. k * 256 + uint (b :: byte)) a (map (\<lambda>i. word_of_int (k div 256 ^ i)) (rev [0..<n])) =
   a * 256 ^ n + k mod 256 ^ n"
proof (induction n arbitrary: a)
  case 0
  then show ?case by simp
next
  case (Suc n)
  have "uint (word_of_int (k div 256 ^ n) :: byte) = (k div 256 ^ n) mod 256"
    by (simp add: uint_word_of_int)
  moreover have "k mod 256 ^ Suc n = 256 ^ n * ((k div 256 ^ n) mod 256) + k mod 256 ^ n"
    using zmod_zmult2_eq [of 256 k "256 ^ n"] by (simp add: mult.commute)
  ultimately show ?case by (simp add: Suc.IH) (simp add: algebra_simps)
qed

lemma from_to_bytes: "to_bytes n k = Inr bs \<Longrightarrow> from_bytes bs = k"
  by (auto simp: to_bytes_def from_bytes_def foldl_bytes split: if_splits)

lemma to_bytes_four: "0 \<le> k \<Longrightarrow> k < 2 ^ 32 \<Longrightarrow> \<exists>bs. to_bytes 4 k = Inr bs"
  by (simp add: to_bytes_def)

section \<open>The ping-pong application\<close>

text \<open>\<open>completion\<close> is the state of the event object.\<close>

record ping_pong_app =
  source_peer :: "string \<times> int"
  max_counter :: int
  completion :: bool
  app_host :: "nat option"
  app_socket :: "udp_socket option"

type_synonym destination = "ip_v4_addr \<times> int"

definition ping_pong_init :: "string \<times> int \<Rightarrow> int \<Rightarrow> ping_pong_app" where
  "ping_pong_init peer max_c = \<lparr>source_peer = peer, max_counter = max_c, completion = False, app_host = None, app_socket = None\<rparr>"

definition set_app :: "(ping_pong_app \<Rightarrow> ping_pong_app) \<Rightarrow> ('s \<times> ping_pong_app, unit) py" where
  "set_app f = (\<lambda>(s, app). (Inr (), (s, f app)))"

text \<open>An operation of the application's socket on the stack's memory.\<close>

definition on_socket :: "('l lwip_lib \<Rightarrow> ('l udp_state, unit) py) \<Rightarrow> ('l stack \<times> ping_pong_app, unit) py" where
  "on_socket f =
     py_bind (on_fst get_lwip) (\<lambda>lwip (st, app).
       case app_socket app of
         None \<Rightarrow> (Inl AttributeError, (st, app))
       | Some s \<Rightarrow>
           (case f lwip (stack_mem st, s) of
              (r, (m, s')) \<Rightarrow> (r, (st\<lparr>stack_mem := m\<rparr>, app\<lparr>app_socket := Some s'\<rparr>))))"

text \<open>
  \<^verbatim>\<open>start\<close>; \<open>callback\<close> names the application's \<^verbatim>\<open>_receive_data\<close>. The address
  object that \<open>bind\<close> makes gets a place of its own.
\<close>

definition start_app :: "nat \<Rightarrow> nat \<Rightarrow> ('l stack \<times> ping_pong_app, unit) py" where
  "start_app callback host =
     py_bind (set_app (\<lambda>a. a\<lparr>app_host := Some host\<rparr>)) (\<lambda>_.
     py_bind (on_fst (make_socket sock_dgram)) (\<lambda>sock.
     py_bind (set_app (\<lambda>a. a\<lparr>app_socket := Some sock\<rparr>)) (\<lambda>_.
     py_bind (\<lambda>(st, app). (Inr (next_obj st), (st\<lparr>next_obj := Suc (next_obj st)\<rparr>, app))) (\<lambda>new_ip (st, app).
     py_bind (on_socket (\<lambda>lwip. bind lwip new_ip (source_peer app))) (\<lambda>_.
     on_socket (\<lambda>_. set_recv_callback (Some callback))) (st, app)))))"

definition send_ping :: "destination \<Rightarrow> int \<Rightarrow> ('l stack \<times> ping_pong_app, unit) py" where
  "send_ping destination counter =
     py_bind (of_res (to_bytes 4 counter)) (\<lambda>data_to_send.
     py_bind (on_fst (new_ip4 (fst destination))) (\<lambda>ip_address.
     on_socket (\<lambda>lwip. send_to lwip (PyBytes data_to_send) ip_address (snd destination))))"

definition start_and_send_ping :: "nat \<Rightarrow> nat \<Rightarrow> destination \<Rightarrow> ('l stack \<times> ping_pong_app, unit) py" where
  "start_and_send_ping callback host target = py_bind (start_app callback host) (\<lambda>_. send_ping target 1)"

text \<open>
  \<^verbatim>\<open>_receive_data\<close>; \<open>execute_send\<close> is \<^verbatim>\<open>self._host.execute\<close> with the lambda
  that sends the given counter to the given destination.
\<close>

definition receive_data ::
  "(destination \<times> int \<Rightarrow> ('s, unit) py) \<Rightarrow> byte list \<Rightarrow> ip_v4_addr \<Rightarrow> int \<Rightarrow> ('s \<times> ping_pong_app, unit) py" where
  "receive_data execute_send received_data address_from port_from =
     (\<lambda>(s, app).
        let counter = from_bytes received_data in
        if counter < max_counter app then
          let new_counter = counter + 1 in
          py_bind (on_fst (execute_send ((address_from, port_from), new_counter))) (\<lambda>_.
            if new_counter = max_counter app then set_app (\<lambda>a. a\<lparr>completion := True\<rparr>) else py_return ()) (s, app)
        else set_app (\<lambda>a. a\<lparr>completion := True\<rparr>) (s, app))"

text \<open>
  The lambdas that wait in the host's queue: the user action \<open>k\<close> is the \<open>k\<close>-th of them, and the
  host's thread runs it as a user action.
\<close>

definition execute_send :: "nat \<Rightarrow> destination \<times> int \<Rightarrow> (unit host_sys \<times> (destination \<times> int) list, unit) py" where
  "execute_send self c =
     (\<lambda>(th, sends).
        case execute self (length sends) 0 th of
          (Inl e, th') \<Rightarrow> (Inl e, (th', sends))
        | (Inr _, th') \<Rightarrow> (Inr (), (th', sends @ [c])))"

definition run_send :: "(destination \<times> int) list \<Rightarrow> nat \<Rightarrow> ('l stack \<times> ping_pong_app, unit) py" where
  "run_send sends k = (case sends ! k of (destination, counter) \<Rightarrow> send_ping destination counter)"

section \<open>The pinger\<close>

text \<open>\<open>clients\<close> of the stack's library by identity; \<open>target\<close> is the place of the address.\<close>

record ping_app =
  address_to_ping :: nat
  ping_done :: bool

definition ping_app_ping ::
  "ping_app \<Rightarrow> nat \<Rightarrow> nat \<Rightarrow> ('l stack \<times> (nat \<Rightarrow> ping_client), unit) py" where
  "ping_app_ping app c on_result =
     py_bind (on_fst make_ping_client) (\<lambda>client.
     py_bind (on_fst get_lwip) (\<lambda>lwip (st, cl).
       case ping lwip c (address_to_ping app) (Some on_result) \<lparr>pmem = stack_mem st, clients = cl(c := client)\<rparr> of
         (r, s) \<Rightarrow> (r, (st\<lparr>stack_mem := pmem s\<rparr>, clients s))))"

definition on_ping_result :: "bool \<Rightarrow> ping_app \<Rightarrow> ping_app" where
  "on_ping_result result app = app\<lparr>ping_done := True\<rparr>"

section \<open>One datagram\<close>

text \<open>The task that \<open>receive_data\<close> leaves in the host's queue.\<close>

definition send_task :: "nat \<Rightarrow> nat \<Rightarrow> unit host_sys \<Rightarrow> (host_action, host_val) task" where
  "send_task self k th =
     new_task (now th) 0 TOP_PRIO (User_action k) [Host_val self] [] (next_future (ex th))"

lemma execute_send_queues:
  assumes "sys_fine th" and "running th"
    and "\<forall>u \<in># queued_tasks th. task_key u \<noteq> Task_Key (now th) TOP_PRIO"
  obtains th' where "execute_send self c (th, sends) = (Inr (), (th', sends @ [c]))"
    and "queued_tasks th' = add_mset (send_task self (length sends) th) (queued_tasks th)"
proof -
  have "\<forall>u \<in># queued_tasks th. task_key u \<noteq> Task_Key (now th + 0) TOP_PRIO" using assms(3) by simp
  from sys_schedule_running [OF assms(1,2) this, of host_val_lt "User_action (length sends)" "[Host_val self]"]
  obtain th' where
    "sys_schedule host_val_lt 0 TOP_PRIO (User_action (length sends)) [Host_val self] th = (Inr (next_future (ex th)), th')"
    "queued_tasks th' = add_mset (send_task self (length sends) th) (queued_tasks th)"
    unfolding send_task_def by metis
  then show thesis by (intro that [of th']) (simp_all add: execute_send_def execute_def)
qed

text \<open>What \<open>receive_data\<close> does when the host takes the lambda.\<close>

lemma receive_data_eq:
  assumes "from_bytes d < max_counter app \<Longrightarrow> exec ((a, port), from_bytes d + 1) s = (Inr (), s')"
  shows "receive_data exec d a port (s, app) =
    (Inr (), (if from_bytes d < max_counter app then s' else s,
       app\<lparr>completion := completion app \<or> max_counter app \<le> from_bytes d + 1\<rparr>))"
  using assms by (cases app) (auto simp: receive_data_def Let_def py_simps set_app_def)

text \<open>
  A peer's reaction to a datagram, on a running host with no queued task of this very time: a
  counter below the maximum queues exactly one action with the host, which sends the counter
  plus one back to where the datagram came from, and the event is set when that is the
  maximum; any other counter sets the event and queues nothing.
\<close>

lemma ping_pong_answers:
  assumes "sys_fine th" and "running th"
    and "\<forall>u \<in># queued_tasks th. task_key u \<noteq> Task_Key (now th) TOP_PRIO"
  shows "\<exists>th' sends'.
    receive_data (execute_send self) d a port ((th, sends), app) =
      (Inr (), ((th', sends'), app\<lparr>completion := completion app \<or> max_counter app \<le> from_bytes d + 1\<rparr>)) \<and>
    (if from_bytes d < max_counter app
     then queued_tasks th' = add_mset (send_task self (length sends) th) (queued_tasks th) \<and>
       run_host_task other (run_send sends') (send_task self (length sends) th) = send_ping (a, port) (from_bytes d + 1)
     else th' = th \<and> sends' = sends)"
proof (cases "from_bytes d < max_counter app")
  case True
  obtain th' where "execute_send self ((a, port), from_bytes d + 1) (th, sends) =
      (Inr (), (th', sends @ [((a, port), from_bytes d + 1)]))"
    "queued_tasks th' = add_mset (send_task self (length sends) th) (queued_tasks th)"
    using execute_send_queues [OF assms] .
  with True receive_data_eq [of d app "execute_send self" a port "(th, sends)" "(th', sends @ [((a, port), from_bytes d + 1)])"]
  show ?thesis
    by (intro exI [of _ th'] exI [of _ "sends @ [((a, port), from_bytes d + 1)]"])
      (simp add: run_host_task_def send_task_def new_task_def run_send_def)
next
  case False
  with receive_data_eq [of d app "execute_send self" a port "(th, sends)"] show ?thesis by simp
qed

section \<open>The exchange\<close>

text \<open>
  What a peer puts on the wire for a datagram: its host's thread executes the lambda that
  \<open>receive_data\<close> queued; a counter that has no four bytes raises there and nothing is sent.
\<close>

definition answer :: "byte list \<Rightarrow> ping_pong_app \<Rightarrow> byte list list \<times> ping_pong_app" where
  "answer d app =
     (case receive_data (\<lambda>c pending. (Inr (), pending @ [c])) d \<lparr>addr = 0\<rparr> 0 ([], app) of
        (_, (pending, app')) \<Rightarrow>
          (concat (map (\<lambda>(_, c). case to_bytes 4 c of Inl e \<Rightarrow> [] | Inr bs \<Rightarrow> [bs]) pending), app'))"

text \<open>
  A network that loses nothing: the datagram \<open>d\<close> arrives at \<open>a\<close>, whose answer arrives at \<open>b\<close>, and so
  on until a peer does not answer. The result is all datagrams of the exchange and both
  peers; \<open>None\<close> when \<open>n\<close> datagrams are not enough to end it.
\<close>

fun exchange ::
  "nat \<Rightarrow> byte list \<Rightarrow> ping_pong_app \<Rightarrow> ping_pong_app \<Rightarrow> (byte list list \<times> ping_pong_app \<times> ping_pong_app) option" where
  "exchange 0 d a b = None"
| "exchange (Suc n) d a b =
     (case answer d a of
        ([], a') \<Rightarrow> Some ([d], a', b)
      | (d' # _, a') \<Rightarrow> map_option (\<lambda>(ds, b', a''). (d # ds, a'', b')) (exchange n d' b a'))"

lemma answer_stops: "max_counter app \<le> from_bytes d \<Longrightarrow> answer d app = ([], app\<lparr>completion := True\<rparr>)"
  using receive_data_eq [of d app "\<lambda>c pending. (Inr (), pending @ [c])" "\<lparr>addr = 0\<rparr>" 0 "[]"]
  by (simp add: answer_def)

lemma answer_counts:
  assumes "from_bytes d < max_counter app" and "0 \<le> from_bytes d" and "max_counter app < 2 ^ 32"
  obtains d' where "to_bytes 4 (from_bytes d + 1) = Inr d'"
    and "answer d app = ([d'], app\<lparr>completion := completion app \<or> max_counter app = from_bytes d + 1\<rparr>)"
proof -
  obtain d' where d': "to_bytes 4 (from_bytes d + 1) = Inr d'"
    using to_bytes_four [of "from_bytes d + 1"] assms by auto
  have "max_counter app \<le> from_bytes d + 1 \<longleftrightarrow> max_counter app = from_bytes d + 1" using assms(1) by auto
  with d' assms(1) receive_data_eq [of d app "\<lambda>c pending. (Inr (), pending @ [c])" "\<lparr>addr = 0\<rparr>" 0 "[]"
      "[((\<lparr>addr = 0\<rparr>, 0), from_bytes d + 1)]"]
  show thesis by (intro that [OF d']) (simp add: answer_def)
qed

lemma exchange_counts:
  assumes "from_bytes d = c" and "0 \<le> c" and "c \<le> mx" and "mx < 2 ^ 32" and "max_counter a = mx" and "max_counter b = mx"
    and "nat (mx - c) < n"
  shows "\<exists>ds a' b'. exchange n d a b = Some (ds, a', b') \<and> map from_bytes ds = [c..mx] \<and>
    a' = a\<lparr>completion := True\<rparr> \<and> b' = b\<lparr>completion := completion b \<or> c < mx\<rparr>"
  using assms
proof (induction n arbitrary: d c a b)
  case 0
  then show ?case by simp
next
  case (Suc n)
  show ?case
  proof (cases "c = mx")
    case True
    then show ?thesis using Suc.prems answer_stops [of a d] by (cases b) (simp add: upto.simps)
  next
    case False
    then have "from_bytes d < max_counter a" "0 \<le> from_bytes d" "max_counter a < 2 ^ 32"
      using Suc.prems by simp_all
    then obtain d' where d': "to_bytes 4 (c + 1) = Inr d'"
      "answer d a = ([d'], a\<lparr>completion := completion a \<or> mx = c + 1\<rparr>)"
      using answer_counts [of d a] Suc.prems(1,5) by auto
    have "\<exists>ds a' b'. exchange n d' b (a\<lparr>completion := completion a \<or> mx = c + 1\<rparr>) = Some (ds, a', b') \<and>
      map from_bytes ds = [c + 1..mx] \<and> a' = b\<lparr>completion := True\<rparr> \<and>
      b' = a\<lparr>completion := (completion a \<or> mx = c + 1) \<or> c + 1 < mx\<rparr>"
      using Suc.IH [of d' "c + 1" b "a\<lparr>completion := completion a \<or> mx = c + 1\<rparr>"] Suc.prems False
        from_to_bytes [OF d'(1)] by simp
    then obtain ds where ds: "exchange n d' b (a\<lparr>completion := completion a \<or> mx = c + 1\<rparr>) =
        Some (ds, b\<lparr>completion := True\<rparr>, a\<lparr>completion := (completion a \<or> mx = c + 1) \<or> c + 1 < mx\<rparr>)"
      "map from_bytes ds = [c + 1..mx]" by blast
    have "(completion a \<or> mx = c + 1) \<or> c + 1 < mx" "c < mx" using False Suc.prems(3) by auto
    with ds d'(2) Suc.prems(1) show ?thesis by (simp add: upto.simps [of c mx])
  qed
qed

text \<open>
  C36: two peers with the same maximum, of at most four bytes, on a network that loses nothing: the
  exchange ends, the datagrams carry exactly the counters from 1 to the maximum in this order,
  and both events are set, except that with the maximum 1 the peer that began waits for ever.
\<close>

theorem ping_pong_completes:
  assumes "1 \<le> mx" and "mx < 2 ^ 32" and "nat mx \<le> n"
    and "to_bytes 4 1 = Inr d"
  shows "\<exists>ds a b. exchange n d (ping_pong_init peer_a mx) (ping_pong_init peer_b mx) = Some (ds, a, b) \<and>
    map from_bytes ds = [1..mx] \<and> completion a \<and> (completion b \<longleftrightarrow> 2 \<le> mx)"
proof -
  have "nat (mx - 1) < n" using assms(1,3) by linarith
  from exchange_counts [OF from_to_bytes [OF assms(4)] _ assms(1,2) _ _ this, of "ping_pong_init peer_a mx" "ping_pong_init peer_b mx"]
  show ?thesis by (auto simp: ping_pong_init_def)
qed

theorem ping_pong_completes_witness:
  "\<exists>ds a b. exchange 10 [0, 0, 0, 1] (ping_pong_init ('''', 1000) 10) (ping_pong_init ('''', 2000) 10) = Some (ds, a, b) \<and>
    map from_bytes ds = [1..10] \<and> completion a \<and> completion b"
proof -
  have "to_bytes 4 1 = Inr [0, 0, 0, 1]" by code_simp
  from ping_pong_completes [OF _ _ _ this, of 10 10 "('''', 1000)" "('''', 2000)"] show ?thesis by simp
qed

end
