(* ===== verification/Callbacks.thy ===== *)
theory Callbacks imports FramePath begin

text \<open>
  The way from C into Python. The library calls the package through function pointers that are
  \<^verbatim>\<open>CFUNCTYPE\<close> objects: the arguments are converted by the type's parameters, the callable
  runs, and its value is converted to the type's result. An exception of the callable, or a
  value that cannot be converted, is printed and dropped: C sees an unspecified result and goes on.
\<close>

section \<open>Function types\<close>

record c_fun_type =
  fun_result :: "c_type option"
  fun_params :: "c_type list"

text \<open>Those of \<^verbatim>\<open>NetIf\<close>.\<close>

definition netif_init_fn_type :: c_fun_type where
  "netif_init_fn_type = \<lparr>fun_result = Some c_int8, fun_params = [POINTER ''_LwipNetIf'']\<rparr>"

definition netif_input_fn_type :: c_fun_type where
  "netif_input_fn_type = \<lparr>fun_result = Some c_int8, fun_params = [POINTER ''PBuf'', POINTER ''_LwipNetIf'']\<rparr>"

definition netif_linkoutput_fn :: c_fun_type where
  "netif_linkoutput_fn = \<lparr>fun_result = Some c_int8, fun_params = [POINTER ''_LwipNetIf'', POINTER ''PBuf'']\<rparr>"

definition netif_output_fn :: c_fun_type where
  "netif_output_fn =
     \<lparr>fun_result = Some c_int8, fun_params = [POINTER ''_LwipNetIf'', POINTER ''PBuf'', POINTER ''IpV4Addr'']\<rparr>"

definition netif_status_cbk_fn :: c_fun_type where
  "netif_status_cbk_fn = \<lparr>fun_result = None, fun_params = [POINTER ''_LwipNetIf'']\<rparr>"

text \<open>Those of \<^verbatim>\<open>udp_socket.py\<close> and \<^verbatim>\<open>PingClient\<close>.\<close>

definition udp_recv_fn_func_type :: c_fun_type where
  "udp_recv_fn_func_type =
     \<lparr>fun_result = None, fun_params = [c_void_p, POINTER ''_UdpPcb'', POINTER ''PBuf'', POINTER ''IpV4Addr'', c_uint16]\<rparr>"

definition ping_callback_fn :: c_fun_type where
  "ping_callback_fn = \<lparr>fun_result = None, fun_params = [c_uint8]\<rparr>"

lemmas c_fun_types = netif_init_fn_type_def netif_input_fn_type_def netif_linkoutput_fn_def netif_output_fn_def
  netif_status_cbk_fn_def udp_recv_fn_func_type_def ping_callback_fn_def

text \<open>
  A call from C of a callable \<open>f\<close> wrapped in the type; \<open>unspecified\<close> is what C finds as the result
  when there is none.
\<close>

definition call_from_c ::
  "c_fun_type \<Rightarrow> (py_val list \<Rightarrow> ('s, py_val) py) \<Rightarrow> c_val \<Rightarrow> c_val list \<Rightarrow> 's \<Rightarrow> c_val \<times> 's" where
  "call_from_c ty f unspecified cs s =
     (case f (map2 (\<lambda>t c. to_result (Some t) c) (fun_params ty) cs) s of
        (Inl e, s') \<Rightarrow> (unspecified, s')
      | (Inr v, s') \<Rightarrow>
          (case fun_result ty of
             None \<Rightarrow> (CVoid, s')
           | Some t \<Rightarrow> (case from_param t v of Inl e \<Rightarrow> (unspecified, s') | Inr c \<Rightarrow> (c, s'))))"

section \<open>The callables\<close>

text \<open>\<^verbatim>\<open>_report_netif_init\<close>.\<close>

definition report_netif_init :: "py_val \<Rightarrow> ('s, py_val) py" where
  "report_netif_init net_if = py_return (PyInt 0)"

text \<open>The methods as ctypes calls them, with as many arguments as the type has parameters.\<close>

definition init_callable :: "py_val list \<Rightarrow> ('s, py_val) py" where
  "init_callable vs = (case vs of [net_if] \<Rightarrow> report_netif_init net_if | _ \<Rightarrow> py_raise TypeError)"

definition link_output_callable ::
  "(nat \<Rightarrow> nat \<Rightarrow> byte list \<Rightarrow> ('l netif_state \<times> 'o, unit) py) \<Rightarrow> py_val list \<Rightarrow> ('l netif_state \<times> 'o, py_val) py" where
  "link_output_callable call vs =
     (case vs of [PyPtr _ i, PyPtr _ p] \<Rightarrow> link_output_wrapper call i p | _ \<Rightarrow> py_raise TypeError)"

definition status_callable ::
  "(nat \<Rightarrow> nat \<Rightarrow> ('l netif_state, unit) py) \<Rightarrow> py_val list \<Rightarrow> ('l netif_state, py_val) py" where
  "status_callable call vs =
     (case vs of [ni] \<Rightarrow> py_bind (status_callback_internal call) (\<lambda>_. py_return PyNone) | _ \<Rightarrow> py_raise TypeError)"

definition recv_callable ::
  "'l lwip_lib \<Rightarrow> (nat \<Rightarrow> nat \<Rightarrow> byte list \<Rightarrow> ip_v4_addr \<Rightarrow> int \<Rightarrow> ('l udp_state \<times> 'o, unit) py) \<Rightarrow>
   py_val list \<Rightarrow> ('l udp_state \<times> 'o, py_val) py" where
  "recv_callable lwip call vs =
     (case vs of
        [arg, control_block, PyPtr _ p, PyPtr _ a, PyInt port] \<Rightarrow>
          py_bind (recv_callback lwip call p a port) (\<lambda>_. py_return PyNone)
      | _ \<Rightarrow> py_raise TypeError)"

section \<open>What C sees\<close>

text \<open>
  C17: sending on an interface from inside lwIP. When the user's callable is the bus's output
  callback, no queued broadcast has this very time, and none of the pointers that are followed
  is \<^verbatim>\<open>NULL\<close>: on a running bus lwIP gets 0, and one broadcast of the pbuf's bytes by this
  interface is queued. On a bus that does not run, for an interface without an output
  callback, or with a \<^verbatim>\<open>NULL\<close> pointer, the result is unspecified, the frame is lost, no state changes, and no
  exception reaches anyone.
\<close>

theorem link_output_from_c:
  assumes "\<not> locked bx" and "queue_ok (tasks bx)" and "\<forall>u \<in> set (get_tasks (tasks bx)). task_key u \<noteq> Task_Key time 0"
    and "call_from_c netif_linkoutput_fn (link_output_callable (bus_output time)) u [CPtr i, CPtr p] ((m, n), bx) = (c, s')"
  shows "if user_link_output n \<noteq> None \<and> status bx = Running \<and> p \<noteq> 0 \<and> payload (pbufs m p) \<noteq> 0 \<and> i \<noteq> 0 \<and> state (netifs m i) \<noteq> 0
    then c = CInt 0 \<and> fst s' = (m, n) \<and>
      mset (get_tasks (tasks (snd s'))) =
        add_mset (bus_task time (py_objects m (state (netifs m i)))
                    (bytes_at m (payload (pbufs m p)) (unat (len (pbufs m p)))) (next_future bx))
          (mset (get_tasks (tasks bx)))
    else c = u \<and> s' = ((m, n), bx)"
proof -
  let ?d = "bytes_at m (payload (pbufs m p)) (unat (len (pbufs m p)))"
  let ?j = "py_objects m (state (netifs m i))"
  let ?out = "link_output_wrapper (bus_output time) i p ((m, n), bx)"
  consider "user_link_output n = None"
    | f where "user_link_output n = Some f" "p = 0 \<or> payload (pbufs m p) = 0 \<or> i = 0 \<or> state (netifs m i) = 0"
    | f where "user_link_output n = Some f" "p \<noteq> 0" "i \<noteq> 0" "state (netifs m i) \<noteq> 0" "payload (pbufs m p) \<noteq> 0"
    by fastforce
  then show ?thesis
  proof cases
    case 1
    then have "?out = (Inr PyNone, ((m, n), bx))" by (simp add: link_output_wrapper_def get_netif_def py_simps)
    with assms(4) 1 show ?thesis by (simp add: call_from_c_def c_fun_types link_output_callable_def)
  next
    case 2
    then have "?out = (Inl ValueError, ((m, n), bx))" by (auto simp: link_output_wrapper_def netif_access py_simps)
    with assms(4) 2 show ?thesis by (auto simp: call_from_c_def c_fun_types link_output_callable_def)
  next
    case 3
    note out = link_output_eq [OF 3, of "bus_output time" bx]
    show ?thesis
    proof (cases "status bx = Running")
      case True
      have "bus_ready time bx" using assms(1-3) True by (simp add: bus_ready_def)
      then obtain bx' where bx': "broadcast time ?j ?d bx = (Inr (), bx')"
        "mset (get_tasks (tasks bx')) = add_mset (bus_task time ?j ?d (next_future bx)) (mset (get_tasks (tasks bx)))"
        by (rule broadcast_queues)
      then have "?out = (Inr (PyInt 0), ((m, n), bx'))" using out by (simp add: bus_output_def py_simps)
      with assms(4) bx'(2) True 3 show ?thesis
        by (auto simp: call_from_c_def c_fun_types link_output_callable_def wrap_signed_def)
    next
      case False
      then have "broadcast time ?j ?d bx = (Inl Stopped_exc, bx)"
        using assms(1) by (simp add: broadcast_def schedule_when_stopped py_simps)
      then have "?out = (Inl Stopped_exc, ((m, n), bx))" using out by (simp add: bus_output_def py_simps)
      with assms(4) False show ?thesis by (simp add: call_from_c_def c_fun_types link_output_callable_def)
    qed
  qed
qed

definition idle_bus :: "(bus_action, bus_val, nat) executor" where
  "idle_bus = new_executor"

theorem link_output_from_c_witness:
  "let n = sample_netif\<lparr>user_link_output := Some 9\<rparr>;
       send = call_from_c netif_linkoutput_fn (link_output_callable (bus_output 5)) (CInt 77) [CPtr 1, CPtr 2] in
   send ((frame_mem, n), idle_bus) = (CInt 77, ((frame_mem, n), idle_bus)) \<and>
   fst (send ((frame_mem, n), run_prologue idle_bus)) = CInt 0 \<and>
   get_tasks (tasks (snd (snd (send ((frame_mem, n), run_prologue idle_bus))))) = [bus_task 5 3 [7] 0]"
proof -
  let ?n = "sample_netif\<lparr>user_link_output := Some 9\<rparr>"
  let ?send = "call_from_c netif_linkoutput_fn (link_output_callable (bus_output 5)) (CInt 77) [CPtr 1, CPtr 2]"
  have m: "state (netifs frame_mem 1) \<noteq> 0" "py_objects frame_mem (state (netifs frame_mem 1)) = 3"
    "bytes_at frame_mem (payload (pbufs frame_mem 2)) (unat (len (pbufs frame_mem 2))) = [7]"
    "payload (pbufs frame_mem 2) \<noteq> 0"
    by code_simp+
  have empty: "tasks idle_bus = []" "tasks (run_prologue idle_bus) = []" "status idle_bus = Stopped"
    "status (run_prologue idle_bus) = Running" "\<not> locked idle_bus" "\<not> locked (run_prologue idle_bus)"
    "next_future (run_prologue idle_bus) = 0"
    by (simp_all add: idle_bus_def run_prologue_def new_executor_def new_queue_def)
  have q: "queue_ok (tasks idle_bus)" "queue_ok (tasks (run_prologue idle_bus))"
    using queue_ok_new by (simp_all add: empty new_queue_def)
  have no: "\<forall>u \<in> set (get_tasks (tasks idle_bus)). task_key u \<noteq> Task_Key 5 0"
    "\<forall>u \<in> set (get_tasks (tasks (run_prologue idle_bus))). task_key u \<noteq> Task_Key 5 0"
    by (simp_all add: empty get_tasks_def)
  obtain c s' where c: "?send ((frame_mem, ?n), idle_bus) = (c, s')" by (metis surj_pair)
  obtain c2 s2 where c2: "?send ((frame_mem, ?n), run_prologue idle_bus) = (c2, s2)" by (metis surj_pair)
  from link_output_from_c [OF empty(5) q(1) no(1) c] have "c = CInt 77 \<and> s' = ((frame_mem, ?n), idle_bus)"
    by (simp add: empty(3))
  moreover from link_output_from_c [OF empty(6) q(2) no(2) c2]
  have "c2 = CInt 0 \<and> mset (get_tasks (tasks (snd s2))) = {#bus_task 5 3 [7] 0#}"
    unfolding m(2,3) using m(1,4) by (simp add: empty(2,4,7))
  then have "c2 = CInt 0 \<and> get_tasks (tasks (snd s2)) = [bus_task 5 3 [7] 0]" by simp
  ultimately show ?thesis using c c2 by (simp add: Let_def)
qed

end
