(* ===== verification/ExampleRuns.thy ===== *)
theory ExampleRuns imports ExampleApps Callbacks begin

text \<open>
  The applications of \<^verbatim>\<open>examples/examples.py\<close> on the real objects: a datagram that lwIP
  hands to a socket of the stack, the reaction of the application, and the answer that the
  host's thread sends.
\<close>

section \<open>A datagram for the application\<close>

text \<open>
  The callable that \<open>start\<close> installs, the bound method \<open>_receive_data\<close> of the application on host \<open>self\<close>:
  it acts on the host's executor with the lambdas waiting in it, and on the application.
\<close>

type_synonym waiting_sends = "unit host_sys \<times> (destination \<times> int) list"

definition bound_receive_data ::
  "nat \<Rightarrow> nat \<Rightarrow> nat \<Rightarrow> byte list \<Rightarrow> ip_v4_addr \<Rightarrow> int \<Rightarrow> ('l udp_state \<times> (waiting_sends \<times> ping_pong_app), unit) py" where
  "bound_receive_data self f sock d address_from port_from =
     (\<lambda>(us, app). case receive_data (execute_send self) d address_from port_from app of (r, app') \<Rightarrow> (r, (us, app')))"

text \<open>
  lwIP calls the function that the socket installed with \<^verbatim>\<open>udp_recv\<close>: the pbuf at \<open>p\<close>, the
  sender's address at \<open>a\<close>.
\<close>

definition datagram_from_c ::
  "nat \<Rightarrow> nat \<Rightarrow> nat \<Rightarrow> nat \<Rightarrow> nat \<Rightarrow> int \<Rightarrow> ('l stack \<times> ping_pong_app) \<times> waiting_sends \<Rightarrow>
   ('l stack \<times> ping_pong_app) \<times> waiting_sends" where
  "datagram_from_c self arg control_block p a port =
     (\<lambda>((st, app), w).
        case (stack_lwip st, app_socket app) of
          (Some lwip, Some s) \<Rightarrow>
            (case call_from_c udp_recv_fn_func_type (recv_callable lwip (bound_receive_data self)) CVoid
                    [CPtr arg, CPtr control_block, CPtr p, CPtr a, CInt port] ((stack_mem st, s), (w, app)) of
               (_, ((m, s'), (w', app'))) \<Rightarrow> ((st\<lparr>stack_mem := m\<rparr>, app'\<lparr>app_socket := Some s'\<rparr>), w'))
        | _ \<Rightarrow> ((st, app), w))"

section \<open>The answer\<close>

lemma transport_keeps:
  assumes laws: "pbuf_laws lwip live" and keeps: "pbuf_keeps part lwip" and a: "allocator_init lwip = Inr a"
    and call: "allocate_transport_pbuf_from_data lwip a (PyBytes bs) None m = (r, m')"
  shows "part m' = part m"
proof -
  note a' = a [unfolded allocator_init_eq [OF laws], simplified, symmetric]
  have fns: "func_name (pbuf_alloc a) \<in> {''pbuf_alloc'', ''pbuf_take''}"
    "func_name (pbuf_take a) \<in> {''pbuf_alloc'', ''pbuf_take''}" by (simp_all add: a')
  obtain q m1 where q: "call_function lwip (pbuf_alloc a) [PyInt 74, PyInt (int (length bs)), PyInt 640] m = (q, m1)"
    by force
  note keep1 = call_keeps [OF keeps fns(1) q]
  show ?thesis
  proof (cases q)
    case (Inl e)
    with call q keep1 show ?thesis
      by (simp add: allocate_transport_pbuf_from_data_def size_or_len_def py_simps)
  next
    case (Inr v)
    obtain q2 m2 where q2: "call_function lwip (pbuf_take a) [v, PyBytes bs, PyInt (int (length bs))] m1 = (q2, m2)"
      by force
    have "m' = m2"
      using call q Inr q2
      by (cases q2; cases v) (auto simp: allocate_transport_pbuf_from_data_def size_or_len_def py_simps split: if_splits)
    with keep1 call_keeps [OF keeps fns(2) q2] show ?thesis by simp
  qed
qed

text \<open>What \<open>send_ping\<close> does on a started application.\<close>

lemma send_ping_effect:
  assumes laws: "pbuf_laws lwip live" "sendto_law lwip live" "pbuf_keeps ip4s lwip"
    and app: "stack_lwip st = Some lwip" "app_socket app = Some s" "socket_of lwip s"
    and d: "to_bytes 4 k = Inr d"
    and run: "ExampleApps.send_ping (ip, port) k (st, app) = (r, (st', app'))"
    and m: "m = (stack_mem st)\<lparr>ip4s := (ip4s (stack_mem st))(next_obj st := ip)\<rparr>"
  shows "app' = app \<and>
    (r = Inl ValueError \<and> live (stack_mem st') = live m \<or>
     (\<exists>q m1 c. q \<notin> live m \<and> chain_bytes m1 q = Some d \<and> ip4s m1 (next_obj st) = ip \<and>
        call_function lwip (udp_send_to s) [pcb s, PyPtr ''PBuf'' q, PyPtr ''IpV4Addr'' (next_obj st), PyInt port] m1 =
          (Inr (PyInt c), stack_mem st') \<and>
        r = (if c \<noteq> 0 then Inl (Stack_exc (StackException c)) else Inr ())))"
proof -
  obtain m' s' where send: "send_to lwip (PyBytes d) (PyPtr ''IpV4Addr'' (next_obj st)) port (m, s) = (r, (m', s'))"
    and st': "stack_mem st' = m'" "app' = app\<lparr>app_socket := Some s'\<rparr>"
    using run d app(1,2) m
    by (auto simp: ExampleApps.send_ping_def new_ip4_def on_socket_def get_lwip_def Let_def py_simps split: prod.splits)
  have "length d = 4" using d by (auto simp: to_bytes_def split: if_splits)
  then have whole: "take (length d mod 65536) d = d" by simp
  have a: "allocator_init lwip = Inr (sock_allocator s)" using app(3) by (simp add: socket_of_def)
  have "readable_bytes (PyBytes d) = Some d" by simp
  from send_to_effect [OF laws(1,2) app(3) this send] have eff: "s' = s"
    "r = Inl ValueError \<and> live m' = live m \<or>
     (\<exists>q m1 c. q \<notin> live m \<and> allocate_transport_pbuf_from_data lwip (sock_allocator s) (PyBytes d) None m = (Inr (PyPtr ''PBuf'' q), m1) \<and>
        chain_bytes m1 q = Some d \<and>
        call_function lwip (udp_send_to s) [pcb s, PyPtr ''PBuf'' q, PyPtr ''IpV4Addr'' (next_obj st), PyInt port] m1 =
          (Inr (PyInt c), m') \<and>
        r = (if c \<noteq> 0 then Inl (Stack_exc (StackException c)) else Inr ()))"
    unfolding whole by (auto split: if_splits)
  have "app' = app" using st'(2) eff(1) app(2) by (cases app) simp
  moreover have "ip4s m1 (next_obj st) = ip"
    if "allocate_transport_pbuf_from_data lwip (sock_allocator s) (PyBytes d) None m = (Inr (PyPtr ''PBuf'' q), m1)" for q m1
    using transport_keeps [OF laws(1,3) a that] by (simp add: m)
  ultimately show ?thesis using eff(2) st'(1) by metis
qed

lemma datagram_reaction:
  assumes laws: "pbuf_laws lwip live"
    and app: "stack_lwip st = Some lwip" "app_socket app = Some s" "socket_of lwip s" "rx_callback s = Some f"
    and p: "p \<noteq> 0" "a \<noteq> 0" "p \<in> live (stack_mem st)" "chain_bytes (stack_mem st) p = Some d" "next_pbuf (pbufs (stack_mem st) p) = 0"
    and port: "0 \<le> port" "port < 65536"
    and react: "receive_data (execute_send self) d (ip4s (stack_mem st) a) port (w, app) = (Inr (), (w', app'))"
    and sock: "app_socket app' = Some s"
  shows "\<exists>m1. datagram_from_c self arg control_block p a port ((st, app), w) = ((st\<lparr>stack_mem := m1\<rparr>, app'), w') \<and>
    live m1 = live (stack_mem st) - {p}"
proof -
  obtain m1 chunk rest where cb:
    "recv_callback lwip (bound_receive_data self) p a port ((stack_mem st, s), (w, app)) =
       bound_receive_data self f (socket_id s) chunk (ip4s (stack_mem st) a) port ((m1, s), (w, app))"
    "live m1 = live (stack_mem st) - {p}" "chunk = d"
    using recv_callback_effect [OF laws app(3,4) p(1,2,3,4), of "bound_receive_data self" port "(w, app)"] p(5) by blast
  have "recv_callback lwip (bound_receive_data self) p a port ((stack_mem st, s), (w, app)) = (Inr (), ((m1, s), (w', app')))"
    unfolding cb(1,3) by (simp add: bound_receive_data_def react)
  then have "datagram_from_c self arg control_block p a port ((st, app), w) = ((st\<lparr>stack_mem := m1\<rparr>, app'\<lparr>app_socket := Some s\<rparr>), w')"
    using port
    by (simp add: datagram_from_c_def app(1,2) call_from_c_def c_fun_types recv_callable_def py_simps wrap_unsigned_id)
  moreover have "app'\<lparr>app_socket := Some s\<rparr> = app'" using sock by (cases app') simp
  ultimately show ?thesis using cb(2) by auto
qed



definition eight_mem :: sample_mem where
  "eight_mem = sample_mem\<lparr>
     pbufs := (pbufs sample_mem)(1 := empty_pbuf\<lparr>payload := 10, tot_len := 4, len := 4\<rparr>),
     bytes := (bytes sample_mem)(10 := 0, 11 := 0, 12 := 0, 13 := 8),
     ip4s := (ip4s sample_mem)(5 := \<lparr>addr = 16909183\<rparr>), priv := [1]\<rparr>"

definition pong_stack :: "nat list stack" where
  "pong_stack = sample_stack\<lparr>stack_lwip := Some (sample_lib 2), stack_mem := eight_mem, next_obj := 30\<rparr>"

definition pong_app :: ping_pong_app where
  "pong_app = (ping_pong_init ('''', 1000) 10)\<lparr>app_socket := Some (sample_socket (sample_lib 2))\<rparr>"

definition fresh_thread :: "unit host_sys" where
  "fresh_thread = (init_sys 0)\<lparr>ex := run_prologue new_executor\<rparr>"

lemma sample_keeps_ip4s: "pbuf_keeps ip4s (sample_lib cap)"
proof -
  have "ip4s (snd (sample_alloc cap cs m)) = ip4s m" for cs m
    by (cases "(cap, cs, m)" rule: sample_alloc.cases) (simp_all add: Let_def)
  moreover have "ip4s (snd (sample_take cs m)) = ip4s m" for cs m
    by (cases "(cs, m)" rule: sample_take.cases) (simp_all add: Let_def)
  ultimately show ?thesis by (simp add: pbuf_keeps_def sample_lib_def)
qed


end
