(* ===== verification/ExampleMain.thy ===== *)
theory ExampleMain imports ExampleRuns begin

text \<open>
  The main function of \<^verbatim>\<open>examples/examples.py\<close> as its thread runs it. The arguments'
  parser, scapy, waiting for other threads and wireshark are parameters; the applications'
  methods are user actions of the hosts, by number.
\<close>

section \<open>The command line\<close>

text \<open>What \<^verbatim>\<open>_parse_args\<close> asks of \<^verbatim>\<open>argparse\<close>: its calls of \<^verbatim>\<open>add_argument\<close>.\<close>

datatype arg_spec =
    Positional string "string list"  \<comment> \<open>name and choices\<close>
  | Store_true string string  \<comment> \<open>short and long form\<close>
  | Store_text string string "string option"  \<comment> \<open>short and long form, default\<close>

definition example_arg_specs :: "string list \<Rightarrow> arg_spec list" where
  "example_arg_specs available_scenarios =
     [Positional ''scenario'' available_scenarios,
      Store_true ''-w'' ''--wireshark'',
      Store_true ''-t'' ''--traffic_trace'',
      Store_text ''-l'' ''--lwip_lib'' None,
      Store_true ''-i'' ''--interface_logs'']"

record example_args =
  scenario :: string
  wireshark :: bool
  traffic_trace :: bool
  lwip_lib :: "string option"
  interface_logs :: bool

definition examples :: "string list" where
  "examples = [''udp-ping-pong'', ''icmp-ping'']"

section \<open>The text traces\<close>

text \<open>
  The observer of the traffic trace. \<open>ether\<close> makes a \<^verbatim>\<open>scapy.Ether\<close> of bytes, \<open>sprintf\<close> is the
  frame's method, \<open>printer\<close> is \<^verbatim>\<open>print\<close>; each may raise.
\<close>

definition ip_format_str :: string where
  "ip_format_str = ''{Ether:%Ether.src% > %Ether.dst%} '' @
     ''{ARP:ARP %ARP.op%} '' @
     ''{IP:IP %IP.src% > %IP.dst%} '' @
     ''{ICMP:ICMP %ICMP.type% %ICMP.code%} '' @
     ''{UDP:UDP %UDP.sport% > %UDP.dport%} ''"

definition ethernet_logger ::
  "(byte list \<Rightarrow> ('s, 'e) py) \<Rightarrow> ('e \<Rightarrow> string \<Rightarrow> ('s, string) py) \<Rightarrow> (string \<Rightarrow> ('s, unit) py) \<Rightarrow>
   nat \<Rightarrow> frame \<Rightarrow> bool \<Rightarrow> ('s, unit) py" where
  "ethernet_logger ether sprintf printer net_if frame was_forwarded =
     py_bind (ether frame) (\<lambda>eth_frame.
     py_bind (sprintf eth_frame ip_format_str) printer)"

text \<open>The trace leaves everything alone that scapy and the printer leave alone.\<close>

lemma ethernet_logger_keeps:
  assumes "\<And>d s. snd (ether d s) = s" and "\<And>e t s. snd (sprintf e t s) = s" and "\<And>t s. snd (printer t s) = s"
  shows "snd (ethernet_logger ether sprintf printer net_if frame was_forwarded s) = s"
proof -
  obtain r where r: "ether frame s = (r, s)" using assms(1) by (metis prod.collapse)
  show ?thesis
  proof (cases r)
    case (Inr e)
    obtain q where "sprintf e ip_format_str s = (q, s)" using assms(2) by (metis prod.collapse)
    with r Inr assms(3) show ?thesis by (cases q) (simp_all add: ethernet_logger_def py_bind_def)
  qed (use r in \<open>simp add: ethernet_logger_def py_bind_def\<close>)
qed

section \<open>The actions of the scenarios\<close>

text \<open>
  The objects of the main function, and its actions on them in a host's thread: 0 and 1 of the ping-pong, 2 of the
  pinger. \<open>callback\<close> names an application's bound method.
\<close>

definition peer_one_app :: ping_pong_app where
  "peer_one_app = ping_pong_init ('''', 1000) 10"

definition peer_two_app :: ping_pong_app where
  "peer_two_app = ping_pong_init ('''', 2000) 10"

definition peer_actions :: "nat \<Rightarrow> nat \<Rightarrow> nat \<Rightarrow> ('l stack \<times> ping_pong_app, unit) py" where
  "peer_actions callback host act =
     (if act = 0 then start_app callback host
      else if act = 1 then
        py_bind (of_res (ip_v4_init ''127.3.2.1'')) (\<lambda>ip. start_and_send_ping callback host (ip, 1000))
      else py_raise TypeError)"

definition pinger_actions :: "ping_app \<Rightarrow> nat \<Rightarrow> nat \<Rightarrow> nat \<Rightarrow> ('l stack \<times> (nat \<Rightarrow> ping_client), unit) py" where
  "pinger_actions app client callback act = (if act = 2 then ping_app_ping app client callback else py_raise TypeError)"

section \<open>The main function\<close>

datatype example_observer = Traffic_trace | Ethernet_recorder

datatype example_event = Peer_one_completion | Peer_two_completion | Ping_completion

text \<open>The state: the network and the observers on its bus, in their order.\<close>

type_synonym 'l example_state = "'l network \<times> example_observer list"

text \<open>
  What the main thread waits for: a future of a host, the end of the bus's thread or of a host's thread, an
  event of an application. The other threads act meanwhile.
\<close>

record 'l waits =
  wait_result :: "nat \<Rightarrow> nat \<Rightarrow> ('l network, unit) py"
  wait_bus :: "('l network, unit) py"
  wait_host :: "nat \<Rightarrow> ('l network, unit) py"
  wait_event :: "example_event \<Rightarrow> ('l network, unit) py"

definition add_bus_observer :: "example_observer \<Rightarrow> ('l example_state, unit) py" where
  "add_bus_observer ob = (\<lambda>(s, obs). (Inr (), (s, obs @ [ob])))"

definition execute_and_wait :: "'l waits \<Rightarrow> string \<Rightarrow> nat \<Rightarrow> ('l example_state, unit) py" where
  "execute_and_wait ws host_name act =
     on_fst (py_bind (\<lambda>s. (get_host host_name s, s)) (\<lambda>h.
       py_bind (on_thread h (execute h act 0)) (\<lambda>task. wait_result ws h task)))"

definition example_hosts :: "'l loads \<Rightarrow> ('l network, unit) py" where
  "example_hosts loads =
     py_bind (add_host loads ''peer_one'' [(''p1.eth1'', ''127.3.2.1'', Some ''255.255.255.0'', Some ''127.0.0.0'')]) (\<lambda>_.
     add_host loads ''peer_two'' [(''p2.eth1'', ''127.3.2.2'', Some ''255.255.255.0'', Some ''127.0.0.0'')])"

definition example_observers :: "example_args \<Rightarrow> ('l example_state, unit) py" where
  "example_observers options =
     py_bind (if interface_logs options
              then on_fst (\<lambda>s. (Inr (), net_set_status_callbacks (Some 0) (Some 0) s)) else py_return ()) (\<lambda>_.
     py_bind (if traffic_trace options then add_bus_observer Traffic_trace else py_return ()) (\<lambda>_.
     if wireshark options then add_bus_observer Ethernet_recorder else py_return ()))"

definition run_scenario :: "'l waits \<Rightarrow> string \<Rightarrow> ('l example_state, unit) py" where
  "run_scenario ws chosen =
     (if chosen = ''udp-ping-pong'' then
        py_bind (execute_and_wait ws ''peer_one'' 0) (\<lambda>_.
        py_bind (execute_and_wait ws ''peer_two'' 1) (\<lambda>_.
        py_bind (on_fst (wait_event ws Peer_one_completion)) (\<lambda>_.
        on_fst (wait_event ws Peer_two_completion))))
      else if chosen = ''icmp-ping'' then
        py_bind (of_res (res_bind (ip_v4_init ''127.3.2.2'') (\<lambda>ip. ip_addr_init (V4 ip)))) (\<lambda>_.
        py_bind (execute_and_wait ws ''peer_one'' 2) (\<lambda>_.
        on_fst (wait_event ws Ping_completion)))
      else py_return ())"

text \<open>
  \<open>parse\<close> is \<^verbatim>\<open>argparse\<close>, which ends the process (\<open>None\<close>) when the arguments are not as asked
  for; \<open>network_of\<close> makes the network for the path of the library; \<open>show\<close> is the call of
  wireshark. The value is what the main function returns or raises, with the final state.
\<close>

definition run_example ::
  "'l loads \<Rightarrow> (arg_spec list \<Rightarrow> example_args option) \<Rightarrow> (string option \<Rightarrow> 'l network) \<Rightarrow> 'l waits \<Rightarrow>
   ('l example_state, unit) py \<Rightarrow> (unit res \<times> 'l example_state) option" where
  "run_example loads parse network_of ws show_frames =
     (case parse (example_arg_specs examples) of
        None \<Rightarrow> None
      | Some options \<Rightarrow>
          Some (py_bind (on_fst (example_hosts loads)) (\<lambda>_.
             py_bind (example_observers options) (\<lambda>_.
             py_bind (on_fst network_start) (\<lambda>_.
             py_bind (on_fst (network_set_up_interfaces (wait_result ws))) (\<lambda>_.
             py_bind (run_scenario ws (scenario options)) (\<lambda>_.
             py_bind (on_fst (network_stop (wait_bus ws) (wait_host ws))) (\<lambda>_.
             if wireshark options then show_frames else py_return ())))))) (network_of (lwip_lib options), [])))"

section \<open>The hosts of the example\<close>

lemma add_host_returns:
  assumes "add_host loads host_name ifaces (s :: 'l network) = (Inr (), s')"
  shows "named_hosts s' = AList.update host_name (next_host s) (named_hosts s) \<and> next_host s' = Suc (next_host s) \<and>
    threads s' = (threads s)(next_host s := init_sys (net_time s)) \<and> bus_thread s' = bus_thread s"
proof -
  let ?h = "next_host s"
  let ?s = "s\<lparr>stacks := (stacks s)(?h := stack_new (make_loader (path_to_lwip_lib s)) (stack_mem (stacks s ?h)) ?h),
              next_host := Suc ?h\<rparr>"
  obtain q x where q: "(host_init loads (net_time s) :: ('l stack, unit host_sys) py) (stacks ?s ?h) = (q, x)" by force
  then obtain thread where thread: "q = Inr thread"
    using assms by (cases q) (auto simp: add_host_def on_stack_def py_bind_def Let_def)
  then have init: "thread = init_sys (net_time s)"
    using q by (auto simp: host_init_def py_simps split: prod.splits sum.splits)
  let ?s1 = "?s\<lparr>stacks := (stacks ?s)(?h := x), threads := (threads s)(?h := thread)\<rparr>"
  obtain q2 s2 where q2: "py_for ifaces (add_host_interface ?h) ?s1 = (q2, s2)" by force
  have "(Inr (), s') = (case q2 of Inl e \<Rightarrow> (Inl e, s2)
      | Inr _ \<Rightarrow> (Inr (), s2\<lparr>named_hosts := AList.update host_name ?h (named_hosts s2)\<rparr>))"
    using assms q thread q2 by (simp add: add_host_def on_stack_def py_bind_def Let_def split: sum.split)
  then show ?thesis
    using add_host_interfaces_effect [OF q2] by (auto simp: init split: sum.splits)
qed

lemma example_hosts_return:
  assumes "example_hosts loads s = (Inr (), s')" and "named_hosts s = []" and "next_host s = 0"
  shows "named_hosts s' = [(''peer_one'', 0), (''peer_two'', 1)] \<and> bus_thread s' = bus_thread s \<and>
    (\<forall>h \<in> {0, 1}. \<exists>t. threads s' h = init_sys t)"
proof -
  obtain s1 where s1: "add_host loads ''peer_one'' [(''p1.eth1'', ''127.3.2.1'', Some ''255.255.255.0'', Some ''127.0.0.0'')] s = (Inr (), s1)"
    "add_host loads ''peer_two'' [(''p2.eth1'', ''127.3.2.2'', Some ''255.255.255.0'', Some ''127.0.0.0'')] s1 = (Inr (), s')"
    using assms(1) by (auto simp: example_hosts_def py_bind_def split: prod.splits sum.splits)
  from add_host_returns [OF s1(1)] add_host_returns [OF s1(2)] assms(2,3) show ?thesis
    by auto
qed

section \<open>Property\<close>

lemma observers_effect:
  "example_observers options (s, obs) =
     (Inr (), (if interface_logs options then net_set_status_callbacks (Some 0) (Some 0) s else s,
        obs @ (if traffic_trace options then [Traffic_trace] else []) @ (if wireshark options then [Ethernet_recorder] else [])))"
  by (simp add: example_observers_def add_bus_observer_def py_simps)

definition never_returns :: "('v \<Rightarrow> 'v \<Rightarrow> bool res) \<Rightarrow> ('a, 'v, 'r) sys \<Rightarrow> bool" where
  "never_returns olt s \<longleftrightarrow> (\<forall>ls s'. (\<forall>b. Stop b \<notin> set ls) \<longrightarrow> sched_steps olt s ls s' \<longrightarrow> worker s' \<noteq> Finished)"

lemma started_never_returns: "never_returns olt ((init_sys t0)\<lparr>worker := Starting\<rparr>)" (is "never_returns olt ?s")
proof -
  have "sys_inv ?s" using core_idle [OF core_init, of Starting t0] by (simp add: sys_inv_def crashed_def init_sys_def)
  moreover have "unstopped ?s" by (simp add: unstopped_def)
  ultimately show ?thesis using unstopped_steps unfolding never_returns_def unstopped_def by blast
qed

text \<open>
  C37: the example's main function against its own threads: when both hosts can be made and no
  other thread runs between \<open>start\<close> and \<open>set_up_interfaces\<close>, the function raises \<open>Stopped\<close> for every
  scenario and every option, after it has started the bus's thread and both hosts' threads; and
  as nothing calls \<open>stop\<close> on that path, none of these threads ever returns, however they go on.
\<close>

theorem example_start_race:
  assumes "parse (example_arg_specs examples) = Some options"
    and "network_of (lwip_lib options) = network_init path stks t0"
    and "fst (example_hosts loads (network_init path stks t0)) = Inr ()"
  shows "\<exists>s obs. run_example loads parse network_of ws show_frames = Some (Inl Stopped_exc, (s, obs)) \<and>
    worker (bus_thread s) = Starting \<and> never_returns bus_val_lt (bus_thread s) \<and>
    (\<forall>h \<in> {0, 1}. worker (threads s h) = Starting \<and> never_returns host_val_lt (threads s h))"
proof -
  let ?s = "network_init path stks t0"
  obtain s1 where s1: "example_hosts loads ?s = (Inr (), s1)" using assms(3) by (metis prod.collapse)
  have init: "named_hosts ?s = []" "next_host ?s = 0" "bus_thread ?s = init_sys t0"
    by (simp_all add: network_init_def)
  note hosts = example_hosts_return [OF s1 init(1,2)]
  let ?s2 = "if interface_logs options then net_set_status_callbacks (Some 0) (Some 0) s1 else s1"
  have same: "named_hosts ?s2 = named_hosts s1" "bus_thread ?s2 = bus_thread s1" "threads ?s2 = threads s1"
    by (simp_all add: net_set_status_callbacks_def)
  have fresh: "worker (bus_thread ?s2) = NotStarted" "distinct (map snd (named_hosts ?s2))" "named_hosts ?s2 \<noteq> []"
    "\<forall>h \<in> snd ` set (named_hosts ?s2). worker (threads ?s2 h) = NotStarted \<and> ex (threads ?s2 h) = new_executor"
    using hosts unfolding same init(3) by (auto simp: init_sys_def)
  obtain s' where s': "network_start ?s2 = (Inr (), s')" "bus_thread s' = (init_sys t0)\<lparr>worker := Starting\<rparr>"
    "\<forall>h \<in> {0, 1}. \<exists>t. threads s' h = (init_sys t)\<lparr>worker := Starting\<rparr>"
    "network_set_up_interfaces (wait_result ws) s' = (Inl Stopped_exc, s')"
    using network_start_does_not_wait [OF fresh(1,2,4,3), of "wait_result ws"] hosts unfolding same init(3) by fastforce
  have "run_example loads parse network_of ws show_frames = Some (Inl Stopped_exc, (s', snd (snd (example_observers options (s1, [])))))"
    using assms(1,2) s1 s'(1,4) by (simp add: run_example_def observers_effect py_simps)
  moreover have "\<forall>h \<in> {0, 1}. worker (threads s' h) = Starting \<and> never_returns host_val_lt (threads s' h)"
    using s'(3) started_never_returns by fastforce
  ultimately show ?thesis using s'(2) started_never_returns by fastforce
qed

text \<open>A library whose functions return 0 and do nothing makes both hosts.\<close>

definition plain_lib :: "nat list lwip_lib" where
  "plain_lib fname = Some (\<lambda>cs m. (CInt 0, m))"

definition plain_loads :: "nat list loads" where
  "plain_loads = ((\<lambda>_. Some ''tmp''), (\<lambda>_. Inr plain_lib))"

lemma plain_simps [simp]:
  "wrap_function plain_lib fname t ats = Inr \<lparr>func_name = fname, restype = t, argtypes = ats\<rparr>"
  "call_function plain_lib \<lparr>func_name = fname, restype = t, argtypes = None\<rparr> vs m = (Inr (to_result t (CInt 0)), m)"
  "call_function plain_lib \<lparr>func_name = fname, restype = t, argtypes = Some ts\<rparr> vs m =
     (if length vs \<noteq> length ts then (Inl TypeError, m)
      else (case seq_res (map2 from_param ts vs) of Inl e \<Rightarrow> (Inl e, m) | Inr cs \<Rightarrow> (Inr (to_result t (CInt 0)), m)))"
  by (simp_all add: wrap_function_def call_function_def plain_lib_def split: sum.split)

lemma plain_stack:
  "stack_init plain_loads (stack_new (make_loader path) m h) =
    (Inr (), (stack_new (make_loader path) m h)\<lparr>library_loader := \<lparr>path_to_lib = path, tmp_lib_copy = Some ''tmp''\<rparr>,
       stack_lwip := Some plain_lib, sys_check_timeouts := Some \<lparr>func_name = ''sys_check_timeouts'', restype = None, argtypes = None\<rparr>\<rparr>)"
  by (simp add: stack_init_def plain_loads_def load_library_def make_loader_def py_simps on_stack_mem_def stack_new_def)

lemma plain_interface:
  assumes "stack_lwip s = Some plain_lib" and "ip_v4_init address = Inr ip" and "ip_v4_init nmask = Inr ip2" and "ip_v4_init gate = Inr ip3"
    and "nmask \<noteq> ''''" "gate \<noteq> ''''" 
  shows "\<exists>k s' n. add_network_interface nm address (Some nmask) (Some gate) s = (Inr k, s') \<and> stack_lwip s' = Some plain_lib \<and> netif_objs s' k = Some n"
  using assms
  by (simp add: add_network_interface_def optional_ip_def new_ip4_def make_interface_def get_lwip_def on_stack_mem_def
      netif_init_def on_netif_def set_name_def set_etharp_flag_def add_def netif_access py_simps Let_def)

lemma plain_add_host:
  assumes "ip_v4_init address = Inr ip" and "ip_v4_init nmask = Inr ip2" and "ip_v4_init gate = Inr ip3"
    and "nmask \<noteq> ''''" and "gate \<noteq> ''''"
  shows "\<exists>s'. add_host plain_loads host_name [(nm, address, Some nmask, Some gate)] s = (Inr (), s')"
proof -
  let ?st = "(stack_new (make_loader (path_to_lwip_lib s)) (stack_mem (stacks s (next_host s))) (next_host s))\<lparr>
      library_loader := \<lparr>path_to_lib = path_to_lwip_lib s, tmp_lib_copy = Some ''tmp''\<rparr>, stack_lwip := Some plain_lib,
      sys_check_timeouts := Some \<lparr>func_name = ''sys_check_timeouts'', restype = None, argtypes = None\<rparr>\<rparr>"
  have "stack_lwip ?st = Some plain_lib" by simp
  from plain_interface [OF this assms, of nm] obtain k s1 n where
    "add_network_interface nm address (Some nmask) (Some gate) ?st = (Inr k, s1)" "netif_objs s1 k = Some n" by blast
  then show ?thesis
    by (simp add: add_host_def host_init_def plain_stack on_stack_def add_host_interface_def on_netif_def
        set_status_callbacks_def set_output_callbacks_def netif_access py_simps Let_def)
qed

lemma plain_hosts: "fst (example_hosts plain_loads s) = Inr ()"
proof -
  have "\<forall>t \<in> {''127.3.2.1'', ''127.3.2.2'', ''255.255.255.0'', ''127.0.0.0''}.
      (case ip_v4_init t of Inl e \<Rightarrow> False | Inr ip \<Rightarrow> True)" by code_simp
  then obtain i1 i2 i3 i4 where "ip_v4_init ''127.3.2.1'' = Inr i1" "ip_v4_init ''127.3.2.2'' = Inr i2"
    "ip_v4_init ''255.255.255.0'' = Inr i3" "ip_v4_init ''127.0.0.0'' = Inr i4"
    by (auto split: sum.splits)
  then obtain s1 s2 where
    "add_host plain_loads ''peer_one'' [(''p1.eth1'', ''127.3.2.1'', Some ''255.255.255.0'', Some ''127.0.0.0'')] s = (Inr (), s1)"
    "add_host plain_loads ''peer_two'' [(''p2.eth1'', ''127.3.2.2'', Some ''255.255.255.0'', Some ''127.0.0.0'')] s1 = (Inr (), s2)"
    using plain_add_host by (metis list.distinct(1))
  then show ?thesis by (simp add: example_hosts_def py_bind_def)
qed


definition example_options :: example_args where
  "example_options = \<lparr>scenario = ''udp-ping-pong'', wireshark = False, traffic_trace = True, lwip_lib = None,
     interface_logs = True\<rparr>"

definition idle_waits :: "nat list waits" where
  "idle_waits = \<lparr>wait_result = (\<lambda>_ _. py_return ()), wait_bus = py_return (), wait_host = (\<lambda>_. py_return ()),
     wait_event = (\<lambda>_. py_return ())\<rparr>"

definition example_result :: "(unit res \<times> nat list example_state) option" where
  "example_result = run_example plain_loads (\<lambda>_. Some example_options)
     (\<lambda>_. network_init ''liblwip.so'' (\<lambda>h. stack_new (make_loader ''liblwip.so'') sample_mem h) 0) idle_waits (py_return ())"

theorem example_start_race_witness:
  "\<exists>s obs. example_result = Some (Inl Stopped_exc, (s, obs)) \<and> worker (bus_thread s) = Starting \<and>
     never_returns bus_val_lt (bus_thread s)"
proof -
  from example_start_race [OF _ _ plain_hosts, where parse = "\<lambda>_. Some example_options" and options = example_options and
      network_of = "\<lambda>_. network_init ''liblwip.so'' (\<lambda>h. stack_new (make_loader ''liblwip.so'') sample_mem h) 0" and
      ws = idle_waits and show_frames = "py_return ()"]
  show ?thesis unfolding example_result_def by blast
qed

end
