(* ===== verification/Spec2Isabelle.thy ===== *)
theory Spec2Isabelle imports SchedulerProperties NetworkRuns ExampleMain begin

text \<open>
  The Python package \<^verbatim>\<open>lwip_py\<close>: bindings that run instances of the lwIP stack
  on emulated hosts, connected by an emulated ethernet bus.

  \<^bold>\<open>Parts and how they interact.\<close> A \<open>Host\<close> owns a \<open>Stack\<close> (one loaded instance of the
  library) and a \<open>SingleThreadExecutor\<close> whose thread does all work on that stack. An
  \<open>EthernetNetwork\<close> creates hosts and connects their interfaces to one \<open>EthernetBus\<close>, which has an
  executor of its own. A frame that lwIP sends leaves through \<open>NetIf._link_output_wrapper\<close>,
  is queued on the bus by \<open>broadcast\<close>, passes filters and observers in \<open>_broadcast\<close>, and is queued
  with \<open>Host.on_incoming_data\<close> on the hosts of the other interfaces, whose threads hand it to
  lwIP in \<open>NetIf.input_data\<close>. Applications use \<open>UdpSocket\<close> and \<open>PingClient\<close> inside actions they
  give to \<open>Host.execute\<close>.

  \<^bold>\<open>Theories.\<close>
  \<^item> Prelude: exceptions, results, effects (a state and a value or an exception), loops.
  \<^item> Heapq (the standard library's \<^verbatim>\<open>heapq\<close>), TaskQueue, TaskQueueSpec, Locking, Futures,
    Executor, ExecutorSteps, ExecutorInvariants, ExecutorStop, ExecutorRuns, ExecutorProgress,
    ExecutorOrder, SchedulerProperties: \<^verbatim>\<open>utility/scheduler.py\<close>. The queue is the heap of its entries;
    the comparison of entries may raise, as Python's does. Each method is a function on the
    executor's record; \<open>sched_step\<close> is one uninterrupted stretch of the worker or of a client.
  \<^item> AddressHelpers, IpAddress, StackExceptions: \<^verbatim>\<open>utility/address_helpers.py\<close>,
    \<^verbatim>\<open>stack/ip_address.py\<close>, \<^verbatim>\<open>stack/exceptions.py\<close>.
  \<^item> Ctypes, Allocator, SampleLibrary: \<^verbatim>\<open>utility/ctypes_helper.py\<close>,
    \<^verbatim>\<open>utility/ctypes_lib_loader.py\<close>, \<^verbatim>\<open>stack/pbuf.py\<close>,
    \<^verbatim>\<open>stack/memory_allocator.py\<close>. The library is a parameter: a function by name, on
    a memory that C and Python share. SampleLibrary is a concrete one that satisfies the laws.
  \<^item> UdpSocket, UdpProperties: \<^verbatim>\<open>stack/udp_socket.py\<close>.
  \<^item> NetIf, NetIfProperties: \<^verbatim>\<open>stack/netif.py\<close>.
  \<^item> PingClient: \<^verbatim>\<open>stack/ping_client.py\<close> and \<^verbatim>\<open>lwip_lib/src/ping_result.c\<close>.
  \<^item> Stack: \<^verbatim>\<open>stack/stack.py\<close>.
  \<^item> EthernetBus: \<^verbatim>\<open>emulation/ethernet_bus.py\<close>, \<^verbatim>\<open>output/ethernet_recorder.py\<close>.
  \<^item> Host, HostInterfaces, Network: \<^verbatim>\<open>emulation/host.py\<close>, \<^verbatim>\<open>emulation/ethernet_network.py\<close>.
  \<^item> ThreadActions: an executor's thread together with the code its actions run
    (\<open>machine_step\<close>): a step of the thread, a client's call, the end of an action with its effect on
    the world, or a change of the world by others. It projects to \<open>sched_step\<close>, so the
    executor's lemmas hold for it.
  \<^item> EmulationThreads, NetworkRuns: the bus's thread and a host's thread as such machines, and the
    running network, \<open>network_step\<close>, where the world of the bus's machine is the machines of all hosts.
  \<^item> Callbacks: the \<^verbatim>\<open>CFUNCTYPE\<close> types of the package, and a call from C into a Python callable
    (\<open>call_from_c\<close>), which drops exceptions.
  \<^item> FramePath: how interface, bus and host hand a frame on; the property is at the end of
    this theory.
  \<^item> ExampleApps, ExampleRuns, ExampleMain: \<^verbatim>\<open>examples/examples.py\<close>: the applications, their reaction
    to a datagram from lwIP on the real socket, stack and host, and the main function.

  \<^bold>\<open>Interfaces.\<close> \<open>keyed_order\<close> (Heapq) is what a heap needs of its comparison, interpreted on the
  queue's entries; \<open>timed_queue\<close> (TaskQueue) is what the executor needs of its queue,
  interpreted on the queue; \<open>lock_like\<close> (Locking) is what \<open>ScopedUnlocker\<close> needs of a lock,
  interpreted on the executor's condition; \<open>frame_receivers\<close> (EthernetBus) is what the bus needs of
  those who take its frames, interpreted in Network on the hosts' executors.

  \<^bold>\<open>What the lemmas show.\<close> The queue refines a list sorted by time and priority. The executor,
  in every interleaving, begins each task at most once, not early, not after its
  cancellation; keeps every task; misses no wake-up; gets due tasks done; and after a
  synchronous stop between batches finishes all queued tasks. Addresses round trip between
  text and number. Sending copies exactly the data into one new pbuf and reports the
  library's error; receiving delivers the datagram's first segment and frees the pbuf.
  Frames pass between netif, bus and hosts unchanged, each to all interfaces but the
  sender's. With all threads running, the bus is a first-in first-out channel that a synchronous
  stop flushes, what a host's thread hands to an interface is a subsequence of what the
  other interfaces sent, and nothing is lost while the broadcasts return. Failures are stated as they are: which calls raise what, and what they leave
  behind.

  \<^bold>\<open>Assumptions.\<close> Hypotheses on the library state its documentation: \<open>pbuf_laws\<close> (allocation, copying,
  freeing of pbufs), \<open>sendto_law\<close>, \<open>netif_add_law\<close>, \<open>ethernet_input_law\<close>,
  \<open>pbuf_keeps_netifs\<close>, \<open>pbuf_keeps ip4s\<close>, \<open>netif_up_law\<close>, \<open>ping_law\<close>; each has a concrete library that satisfies it. Times are
  exact rationals where Python has floats. In \<open>_process_task\<close>, which runs without the
  lock, the future is set in one step and the \<^verbatim>\<open>finally\<close> clause, which tests the status and counts
  down, is another. A broadcast's clock
  readings are different from each other where a property says so, since equal readings
  make queue entries of equal key. The machines take an action, up to its end, as one step of
  the world, as the world of a thread is changed by its actions under no lock but the interpreter's; their clients
  cancel no future and ask for no delay, as no caller in the package does. A clock that a
  delivery reads does not go back. In \<open>call_from_c\<close> the result after an exception is arbitrary, as
  ctypes leaves it. For \<open>run_example\<close>, what happens while the main thread waits is a parameter,
  and no other thread runs between two of its own calls.

  \<^bold>\<open>Bounds.\<close> Loops of the program are structural or have a measure: the heap's sift loops go
  along the indices, \<open>pop_loop\<close> along the queue's length. \<open>chain_bytes\<close>, which only states what a
  pbuf chain holds, has the value \<open>None\<close> for a cyclic chain and for a segment without memory. The one bound is that of
  \<open>exchange\<close>, on the number of datagrams of a ping-pong; its property shows that the peers' maximum
  suffices.

  \<^bold>\<open>Not modelled.\<close> \<^verbatim>\<open>argparse\<close>, \<^verbatim>\<open>scapy\<close> and its wireshark window are not part of the repository:
  parameters of the example. The C port layer (\<^verbatim>\<open>sys_arch.c\<close>, \<^verbatim>\<open>sio.c\<close>, \<^verbatim>\<open>perf.c\<close>)
  and lwIP itself, whose sources are a submodule, are inside the library parameter. The
  setup script and the smoke test have no logic of their own. Keyword arguments of actions
  are carried in tasks and compared nowhere, as dictionaries have no order.
\<close>

section \<open>The path of a frame\<close>


text \<open>Interface 3 of one host sends; the host of interface 1 receives.\<close>

definition sending_netif :: netif where
  "sending_netif = sample_netif\<lparr>user_link_output := Some 9\<rparr>"

definition running_bus :: "(bus_action, bus_val, nat) executor" where
  "running_bus = run_prologue new_executor"

definition receiving_stack :: "nat list stack" where
  "receiving_stack = sample_stack\<lparr>stack_mem := added_mem, netif_objs := [1 \<mapsto> sample_netif]\<rparr>"


end
